theory Spec2Isabelle
  imports Complex_Main "HOL-Library.Multiset" "HOL-Library.Product_Lexorder"
begin

section \<open>Data model\<close>

text \<open>
  A book is the JSON object the catalog returns. Only the fields the core reads are kept.
  A field that may be missing (\<open>undefined\<close>) is an \<open>option\<close>; a JavaScript string is a
  \<open>string\<close>. Numbers read by the ranking are finite JSON numbers and are modelled as
  rationals.
\<close>

record image_links =
  thumbnail :: "string option"
  smallThumbnail :: "string option"

record industry_identifier =
  ident_type :: "string"
  ident_value :: "string option"

record volume_info =
  title :: "string option"
  authors :: "string list option"
  categories :: "string list option"
  description :: "string option"
  industryIdentifiers :: "industry_identifier list option"
  imageLinks :: "image_links option"
  averageRating :: "rat option"
  ratingsCount :: "rat option"

record book =
  book_id :: "string option"
  volumeInfo :: "volume_info option"

text \<open>The module state of \<open>data.js\<close>: \<open>userBooks\<close> and the two caches.\<close>

record user_books =
  currentlyReading :: "book list"
  wantToRead :: "book list"
  readBooks :: "book list"

record app_state =
  userBooks :: user_books
  lastSearchResults :: "book list"
  recommendationsCache :: "book list"

text \<open>A call either returns a boolean or throws a \<open>TypeError\<close>.\<close>

datatype outcome = Returns bool | Throws

section \<open>JavaScript primitives used by the code\<close>

text \<open>Truthiness of a value that is \<open>undefined\<close> or a string: the empty string is falsy.\<close>

definition truthy :: "string option \<Rightarrow> bool" where
  "truthy v = (case v of None \<Rightarrow> False | Some s \<Rightarrow> s \<noteq> [])"

text \<open>
  \<open>userBooks[listName]\<close>. The object literal has three own properties; every other name is
  looked up in \<open>Object.prototype\<close>, whose properties are functions or objects (truthy, but
  without array methods).
\<close>

datatype property_value = OwnList "book list" | Inherited | Undefined

definition object_prototype_names :: "string list" where
  "object_prototype_names =
     [''constructor'', ''hasOwnProperty'', ''isPrototypeOf'', ''propertyIsEnumerable'',
      ''toLocaleString'', ''toString'', ''valueOf'', ''__proto__'',
      ''__defineGetter__'', ''__defineSetter__'', ''__lookupGetter__'', ''__lookupSetter__'']"

definition get_prop :: "user_books \<Rightarrow> string \<Rightarrow> property_value" where
  "get_prop ub listName =
     (if listName = ''currentlyReading'' then OwnList (currentlyReading ub)
      else if listName = ''wantToRead'' then OwnList (wantToRead ub)
      else if listName = ''readBooks'' then OwnList (readBooks ub)
      else if listName \<in> set object_prototype_names then Inherited
      else Undefined)"

text \<open>Assignment to, or in-place mutation of, the array stored under one of the own keys.\<close>

definition set_list :: "string \<Rightarrow> book list \<Rightarrow> app_state \<Rightarrow> app_state" where
  "set_list listName xs s =
     (if listName = ''currentlyReading''
        then s\<lparr>userBooks := (userBooks s)\<lparr>currentlyReading := xs\<rparr>\<rparr>
      else if listName = ''wantToRead''
        then s\<lparr>userBooks := (userBooks s)\<lparr>wantToRead := xs\<rparr>\<rparr>
      else if listName = ''readBooks''
        then s\<lparr>userBooks := (userBooks s)\<lparr>readBooks := xs\<rparr>\<rparr>
      else s)"

text \<open>\<open>Object.values(userBooks)\<close>: the own lists in insertion order of their keys.\<close>

definition object_values :: "user_books \<Rightarrow> book list list" where
  "object_values ub = [currentlyReading ub, wantToRead ub, readBooks ub]"

text \<open>\<open>xs.splice(xs.findIndex(p), 1)\<close> when the index is found: the first match is removed.\<close>

fun remove_first :: "('a \<Rightarrow> bool) \<Rightarrow> 'a list \<Rightarrow> 'a list" where
  "remove_first p [] = []"
| "remove_first p (x # xs) = (if p x then xs else x # remove_first p xs)"

section \<open>List Manager (\<open>data.js\<close>)\<close>

definition has_id :: "string option \<Rightarrow> book \<Rightarrow> bool" where
  "has_id bookId b = (book_id b = bookId)"

text \<open>
  \<open>addBookToList(book, listName)\<close>. A \<open>null\<close> book behaves as a book without an id.
\<close>

definition addBookToList :: "book \<Rightarrow> string \<Rightarrow> app_state \<Rightarrow> outcome \<times> app_state" where
  "addBookToList b listName s =
     (if \<not> truthy (book_id b) \<or> get_prop (userBooks s) listName = Undefined
        then (Returns False, s)
      else
        let isAlreadyInAnyList =
              list_ex (\<lambda>l. list_ex (\<lambda>existingBook. book_id existingBook = book_id b) l)
                (object_values (userBooks s))
        in if isAlreadyInAnyList then (Returns False, s)
           else (case get_prop (userBooks s) listName of
                   OwnList xs \<Rightarrow> (Returns True, set_list listName (xs @ [b]) s)
                 | _ \<Rightarrow> (Throws, s)))"

text \<open>\<open>removeBookFromList(bookId, listName)\<close>.\<close>

definition removeBookFromList ::
    "string option \<Rightarrow> string \<Rightarrow> app_state \<Rightarrow> outcome \<times> app_state" where
  "removeBookFromList bookId listName s =
     (if \<not> truthy bookId \<or> get_prop (userBooks s) listName = Undefined
        then (Returns False, s)
      else
        (case get_prop (userBooks s) listName of
           OwnList xs \<Rightarrow>
             let initialLength = length xs;
                 ys = filter (\<lambda>b. book_id b \<noteq> bookId) xs;
                 s' = set_list listName ys s
             in if length ys < initialLength then (Returns True, s') else (Returns False, s')
         | _ \<Rightarrow> (Throws, s)))"

text \<open>
  Lines 181--184 of \<open>moveBookToList\<close>: the search cache is consulted before the
  recommendation cache.
\<close>

definition find_in_caches :: "string option \<Rightarrow> app_state \<Rightarrow> book option" where
  "find_in_caches bookId s =
     (case find (has_id bookId) (lastSearchResults s) of
        Some b \<Rightarrow> Some b
      | None \<Rightarrow> find (has_id bookId) (recommendationsCache s))"

text \<open>
  Lines 177--185 of \<open>moveBookToList\<close>: locating the book. The result is \<open>None\<close> when
  \<open>findIndex\<close> is called on a value that is not an array; otherwise the book found (if any)
  and the state after the \<open>splice\<close>.
\<close>

definition locate_book ::
    "string option \<Rightarrow> string option \<Rightarrow> app_state \<Rightarrow> (book option \<times> app_state) option" where
  "locate_book bookId fromListName s =
     (case fromListName of
        None \<Rightarrow> Some (find_in_caches bookId s, s)
      | Some f \<Rightarrow>
          if f \<noteq> [] \<and> get_prop (userBooks s) f \<noteq> Undefined
          then
            (case get_prop (userBooks s) f of
               OwnList fs \<Rightarrow>
                 (case find (has_id bookId) fs of
                    None \<Rightarrow> Some (None, s)
                  | Some b \<Rightarrow> Some (Some b, set_list f (remove_first (has_id bookId) fs) s))
             | _ \<Rightarrow> None)
          else Some (find_in_caches bookId s, s))"

text \<open>\<open>moveBookToList(bookId, fromListName, toListName)\<close>.\<close>

definition moveBookToList ::
    "string option \<Rightarrow> string option \<Rightarrow> string \<Rightarrow> app_state \<Rightarrow> outcome \<times> app_state" where
  "moveBookToList bookId fromListName toListName s =
     (if \<not> truthy bookId \<or> get_prop (userBooks s) toListName = Undefined
        then (Returns False, s)
      else
        (case locate_book bookId fromListName s of
           None \<Rightarrow> (Throws, s)
         | Some (None, s1) \<Rightarrow> (Returns False, s1)
         | Some (Some bookToMove, s1) \<Rightarrow>
             (case get_prop (userBooks s1) toListName of
                OwnList ts \<Rightarrow>
                  if list_ex (has_id bookId) ts then (Returns True, s1)
                  else (Returns True, set_list toListName (ts @ [bookToMove]) s1)
              | _ \<Rightarrow> (Throws, s1))))"

text \<open>\<open>getBookListStatus(bookId)\<close>: the first own key whose list holds the id.\<close>

definition getBookListStatus :: "string option \<Rightarrow> app_state \<Rightarrow> string option" where
  "getBookListStatus bookId s =
     (if list_ex (has_id bookId) (currentlyReading (userBooks s)) then Some ''currentlyReading''
      else if list_ex (has_id bookId) (wantToRead (userBooks s)) then Some ''wantToRead''
      else if list_ex (has_id bookId) (readBooks (userBooks s)) then Some ''readBooks''
      else None)"

text \<open>
  \<open>getAllUserBookIds()\<close>: the ids of all listed books, collected in a \<open>Set\<close> (insertion
  order, no duplicates) and spread into an array.
\<close>

definition set_add :: "'a \<Rightarrow> 'a list \<Rightarrow> 'a list" where
  "set_add x xs = (if x \<in> set xs then xs else xs @ [x])"

definition getAllUserBookIds :: "app_state \<Rightarrow> string option list" where
  "getAllUserBookIds s =
     fold (\<lambda>l allIds. fold (\<lambda>b ids. set_add (book_id b) ids) l allIds)
       (object_values (userBooks s)) []"

section \<open>Recommendation Engine (\<open>recommendations.js\<close>)\<close>

subsection \<open>Signal extraction\<close>

text \<open>
  Text is modelled as a sequence of 8-bit characters (code points below 256). \<open>\W\<close> is
  every character outside \<open>[A-Za-z0-9_]\<close>. \<open>toLowerCase\<close> is modelled on the ASCII letters;
  the other characters below 256 that it changes are non-word characters before and after,
  so the words that \<open>split\<close> yields are the same.
\<close>

definition toLowerCase_char :: "char \<Rightarrow> char" where
  "toLowerCase_char c =
     (let n = (of_char c :: nat) in if 65 \<le> n \<and> n \<le> 90 then char_of (n + 32) else c)"

definition toLowerCase :: "string \<Rightarrow> string" where
  "toLowerCase text = map toLowerCase_char text"

definition word_char :: "char \<Rightarrow> bool" where
  "word_char c =
     (let n = (of_char c :: nat)
      in (48 \<le> n \<and> n \<le> 57) \<or> (65 \<le> n \<and> n \<le> 90) \<or> n = 95 \<or> (97 \<le> n \<and> n \<le> 122))"

text \<open>
  \<open>text.split(/\W+/)\<close>: the fields between maximal runs of non-word characters, an empty
  field included where the text starts or ends with such a run. The flag tells whether the
  scan is inside a separator run; \<open>cur\<close> is the field read so far.
\<close>

fun split_fields :: "bool \<Rightarrow> string \<Rightarrow> string \<Rightarrow> string list" where
  "split_fields in_sep cur [] = [cur]"
| "split_fields in_sep cur (c # cs) =
     (if word_char c then split_fields False (cur @ [c]) cs
      else if in_sep then split_fields True cur cs
      else cur # split_fields True [] cs)"

definition split_nonword :: "string \<Rightarrow> string list" where
  "split_nonword text = split_fields False [] text"

definition stop_words :: "string list" where
  "stop_words =
     [''the'', ''and'', ''for'', ''with'', ''from'', ''book'', ''story'', ''this'', ''that'',
      ''your'', ''have'', ''been'', ''will'', ''they'', ''their'', ''into'', ''some'', ''each'',
      ''such'', ''many'', ''more'', ''than'', ''then'', ''also'', ''just'', ''about'', ''when'',
      ''what'', ''where'', ''which'', ''why'', ''how'', ''there'', ''them'', ''these'',
      ''those'', ''our'', ''out'', ''you'', ''one'', ''two'', ''three'', ''said'']"

text \<open>The words \<open>processText\<close> adds to \<open>readKeywords\<close>, in the order it adds them.\<close>

definition text_words :: "string option \<Rightarrow> string list" where
  "text_words text =
     (case text of
        None \<Rightarrow> []
      | Some t \<Rightarrow>
          if t = [] then []
          else filter (\<lambda>word. length word > 3 \<and> word \<notin> set stop_words)
                 (split_nonword (toLowerCase t)))"

definition processText :: "string option \<Rightarrow> string list \<Rightarrow> string list" where
  "processText text readKeywords = fold set_add (text_words text) readKeywords"

record signals =
  readGenres :: "string list"
  readAuthors :: "string list"
  readKeywords :: "string list"

text \<open>\<open>book.volumeInfo || {}\<close>.\<close>

definition no_info :: volume_info where
  "no_info = \<lparr>title = None, authors = None, categories = None, description = None,
               industryIdentifiers = None, imageLinks = None, averageRating = None,
               ratingsCount = None\<rparr>"

definition info_or_empty :: "book \<Rightarrow> volume_info" where
  "info_or_empty b = (case volumeInfo b of None \<Rightarrow> no_info | Some v \<Rightarrow> v)"

text \<open>The body of \<open>userBooks.readBooks.forEach\<close>.\<close>

definition extract_book :: "book \<Rightarrow> signals \<Rightarrow> signals" where
  "extract_book b sig =
     (let info = info_or_empty b;
          g = (case categories info of None \<Rightarrow> readGenres sig
               | Some cs \<Rightarrow> fold set_add cs (readGenres sig));
          a = (case authors info of None \<Rightarrow> readAuthors sig
               | Some auths \<Rightarrow> fold set_add auths (readAuthors sig));
          k = processText (description info) (processText (title info) (readKeywords sig))
      in \<lparr>readGenres = g, readAuthors = a, readKeywords = k\<rparr>)"

definition extract_signals :: "book list \<Rightarrow> signals" where
  "extract_signals books =
     fold extract_book books \<lparr>readGenres = [], readAuthors = [], readKeywords = []\<rparr>"

subsection \<open>Query construction\<close>

fun join :: "string \<Rightarrow> string list \<Rightarrow> string" where
  "join sep [] = []"
| "join sep [w] = w"
| "join sep (w # ws) = w @ sep @ join sep ws"

definition build_queries :: "signals \<Rightarrow> string list" where
  "build_queries sig =
     (let topGenres = take 3 (readGenres sig);
          topAuthors = take 2 (readAuthors sig);
          topKeywords = take 3 (readKeywords sig);
          searches =
            (if length topGenres > 0 then map (\<lambda>genre. ''subject:'' @ genre) topGenres else []) @
            (if length topAuthors > 0 then map (\<lambda>author. ''inauthor:'' @ author) topAuthors
             else []) @
            (if length topKeywords > 0 then [join '' '' topKeywords] else [])
      in if length searches = 0 then [''bestsellers fiction''] else searches)"

subsection \<open>Fan-out and merge\<close>

text \<open>
  The remote catalog is a parameter: for each query it yields the items of the response or
  fails. \<open>fetchBooks\<close> rejects an empty query before any request is made.
\<close>

datatype fetch_error = InvalidQuery | RequestFailed

type_synonym catalog = "string \<Rightarrow> fetch_error + book list"

definition fetchBooks :: "catalog \<Rightarrow> string \<Rightarrow> fetch_error + book list" where
  "fetchBooks cat query = (if query = [] then Inl InvalidQuery else cat query)"

text \<open>\<open>.catch(() => [])\<close>.\<close>

definition catch_empty :: "fetch_error + book list \<Rightarrow> book list" where
  "catch_empty r = (case r of Inl e \<Rightarrow> [] | Inr items \<Rightarrow> items)"

text \<open>\<open>Promise.all\<close> over the caught promises, then the flattening \<open>forEach\<close>.\<close>

definition fan_out :: "catalog \<Rightarrow> string list \<Rightarrow> book list" where
  "fan_out cat queries = concat (map (\<lambda>q. catch_empty (fetchBooks cat q)) queries)"

subsection \<open>Filter\<close>

definition has_cover :: "volume_info \<Rightarrow> bool" where
  "has_cover info =
     (case imageLinks info of
        None \<Rightarrow> False
      | Some links \<Rightarrow> truthy (thumbnail links) \<or> truthy (smallThumbnail links))"

text \<open>
  The body of \<open>recommendedBooks.forEach\<close>, on the pair \<open>(uniqueBooks, seenBookIds)\<close>.
  A \<open>null\<close> entry behaves as a book without an id.
\<close>

definition filter_step ::
    "string option list \<Rightarrow> book \<Rightarrow> book list \<times> string option list
       \<Rightarrow> book list \<times> string option list" where
  "filter_step userBookIds b acc =
     (case acc of (uniqueBooks, seenBookIds) \<Rightarrow>
        if truthy (book_id b) \<and>
           (case volumeInfo b of
              None \<Rightarrow> False
            | Some info \<Rightarrow>
                book_id b \<notin> set seenBookIds \<and> book_id b \<notin> set userBookIds \<and> has_cover info)
        then (uniqueBooks @ [b], set_add (book_id b) seenBookIds)
        else (uniqueBooks, seenBookIds))"

definition filter_books :: "string option list \<Rightarrow> book list \<Rightarrow> book list" where
  "filter_books userBookIds recommendedBooks =
     fst (fold (filter_step userBookIds) recommendedBooks ([], []))"

subsection \<open>Rank and truncate\<close>

text \<open>
  \<open>x.volumeInfo.averageRating || 0\<close> and \<open>x.volumeInfo.ratingsCount || 0\<close>. Every book that
  reaches the sort has a \<open>volumeInfo\<close> (lemma \<open>filter_books_has_info\<close>). The comparator
  is used through its sign only, and the difference of two finite doubles has the sign of
  their exact difference.
\<close>

definition rating :: "book \<Rightarrow> rat" where
  "rating b = (case averageRating (info_or_empty b) of None \<Rightarrow> 0 | Some r \<Rightarrow> r)"

definition rcount :: "book \<Rightarrow> rat" where
  "rcount b = (case ratingsCount (info_or_empty b) of None \<Rightarrow> 0 | Some c \<Rightarrow> c)"

definition compareFn :: "book \<Rightarrow> book \<Rightarrow> rat" where
  "compareFn a b =
     (let ratingA = rating a; ratingB = rating b; countA = rcount a; countB = rcount b
      in if ratingB \<noteq> ratingA then ratingB - ratingA else countB - countA)"

text \<open>
  \<open>Array.prototype.sort\<close> with a comparator: ECMAScript requires a stable sort, so with a
  consistent comparator the result is that of a stable insertion sort, where \<open>a\<close> goes
  before \<open>b\<close> unless the comparator is positive.
\<close>

fun insert_sorted :: "('a \<Rightarrow> 'a \<Rightarrow> rat) \<Rightarrow> 'a \<Rightarrow> 'a list \<Rightarrow> 'a list" where
  "insert_sorted cmp x [] = [x]"
| "insert_sorted cmp x (y # ys) =
     (if cmp x y \<le> 0 then x # y # ys else y # insert_sorted cmp x ys)"

definition js_sort :: "('a \<Rightarrow> 'a \<Rightarrow> rat) \<Rightarrow> 'a list \<Rightarrow> 'a list" where
  "js_sort cmp xs = foldr (insert_sorted cmp) xs []"

definition finalRecommendations :: "book list \<Rightarrow> book list" where
  "finalRecommendations uniqueBooks = take 10 (js_sort compareFn uniqueBooks)"

subsection \<open>Commit and display\<close>

text \<open>
  \<open>displayRecommendations\<close> is called with the list only, so its \<open>userBookIds\<close> parameter is
  \<open>undefined\<close> and \<open>userBookIds.includes\<close> throws as soon as the filter callback reaches a
  book with an id.
\<close>

definition displayRecommendations_throws :: "book list \<Rightarrow> bool" where
  "displayRecommendations_throws recommendedBooks =
     list_ex (\<lambda>b. truthy (book_id b)) recommendedBooks"

datatype ui_result = NotRun | ShowsList | ShowsEmptyMessage | ShowsError

text \<open>
  \<open>generateRecommendations()\<close>. The flag tells whether \<open>DOM.recommendationsList\<close> exists. The
  cache is written before the list is displayed.
\<close>

definition generateRecommendations ::
    "bool \<Rightarrow> catalog \<Rightarrow> app_state \<Rightarrow> ui_result \<times> app_state" where
  "generateRecommendations dom_ready cat s =
     (if \<not> dom_ready then (NotRun, s)
      else
        let queries = build_queries (extract_signals (readBooks (userBooks s)));
            recommendedBooks = fan_out cat queries;
            uniqueBooks = filter_books (getAllUserBookIds s) recommendedBooks;
            final = finalRecommendations uniqueBooks;
            s' = s\<lparr>recommendationsCache := final\<rparr>
        in if displayRecommendations_throws final then (ShowsError, s')
           else if length final = 0 then (ShowsEmptyMessage, s')
           else (ShowsList, s'))"

section \<open>Cover URL (\<open>getOpenLibraryCover\<close>)\<close>

definition startsWith :: "string \<Rightarrow> string \<Rightarrow> bool" where
  "startsWith s p = (take (length p) s = p)"

text \<open>\<open>s.replace(pat, rep)\<close> with a string pattern: the first occurrence is replaced.\<close>

fun replace_first :: "string \<Rightarrow> string \<Rightarrow> string \<Rightarrow> string" where
  "replace_first pat rep [] = (if pat = [] then rep else [])"
| "replace_first pat rep (c # cs) =
     (if startsWith (c # cs) pat then rep @ drop (length pat) (c # cs)
      else c # replace_first pat rep cs)"

text \<open>The loop body, on the triple \<open>(isbn13, isbn10, oclc)\<close>; \<open>null\<close> is \<open>None\<close>.\<close>

definition cover_step ::
    "industry_identifier \<Rightarrow> string option \<times> string option \<times> string option
       \<Rightarrow> string option \<times> string option \<times> string option" where
  "cover_step i acc =
     (case acc of (isbn13, isbn10, oclc) \<Rightarrow>
        if ident_type i = ''ISBN_13'' then (ident_value i, isbn10, oclc)
        else if ident_type i = ''ISBN_10'' then (isbn13, ident_value i, oclc)
        else if ident_type i = ''OTHER'' \<and>
                (case ident_value i of None \<Rightarrow> False | Some v \<Rightarrow> startsWith v ''OCLC'')
          then (isbn13, isbn10, map_option (replace_first ''OCLC:'' []) (ident_value i))
        else (isbn13, isbn10, oclc))"

definition cover_url :: "string \<Rightarrow> string \<Rightarrow> string \<Rightarrow> string" where
  "cover_url kind key sz =
     ''https://covers.openlibrary.org/b/'' @ kind @ ''/'' @ key @ ''-'' @ sz @ ''.jpg''"

text \<open>A missing \<open>size\<close> argument takes the default \<open>"M"\<close>.\<close>

definition size_or_default :: "string option \<Rightarrow> string" where
  "size_or_default size_arg = (case size_arg of None \<Rightarrow> ''M'' | Some z \<Rightarrow> z)"

definition getOpenLibraryCover :: "volume_info option \<Rightarrow> string option \<Rightarrow> string option" where
  "getOpenLibraryCover vi size_arg =
     (let sz = size_or_default size_arg
      in case vi of
           None \<Rightarrow> None
         | Some info \<Rightarrow>
             (case industryIdentifiers info of
                None \<Rightarrow> None
              | Some ids \<Rightarrow>
                  (case fold cover_step ids (None, None, None) of
                     (isbn13, isbn10, oclc) \<Rightarrow>
                       if truthy isbn13 then map_option (\<lambda>k. cover_url ''isbn'' k sz) isbn13
                       else if truthy isbn10 then map_option (\<lambda>k. cover_url ''isbn'' k sz) isbn10
                       else if truthy oclc then map_option (\<lambda>k. cover_url ''oclc'' k sz) oclc
                       else None)))"

section \<open>Notions used in the statements\<close>

text \<open>The id is held by one of the three lists.\<close>

definition in_any_list :: "string option \<Rightarrow> app_state \<Rightarrow> bool" where
  "in_any_list bookId s =
     (\<exists>l\<in>set (object_values (userBooks s)). \<exists>b\<in>set l. book_id b = bookId)"

text \<open>
  The list a move takes the book from: the list \<open>fromListName\<close> when that is one of the three
  list names, none otherwise.
\<close>

definition source_list :: "string option \<Rightarrow> app_state \<Rightarrow> book list option" where
  "source_list fromListName s =
     (case fromListName of
        None \<Rightarrow> None
      | Some f \<Rightarrow> (case get_prop (userBooks s) f of OwnList fs \<Rightarrow> Some fs | _ \<Rightarrow> None))"

text \<open>
  The book of a move can be located: in the source list when there is one, in the search
  cache or the recommendation cache otherwise.
\<close>

definition located :: "string option \<Rightarrow> string option \<Rightarrow> app_state \<Rightarrow> bool" where
  "located bookId fromListName s =
     (case source_list fromListName s of
        Some fs \<Rightarrow> list_ex (has_id bookId) fs
      | None \<Rightarrow> find_in_caches bookId s \<noteq> None)"

text \<open>How many entries of a list carry the id.\<close>

definition id_count :: "string option \<Rightarrow> book list \<Rightarrow> nat" where
  "id_count bookId xs = length (filter (has_id bookId) xs)"

text \<open>The lists, in key order, that hold the id.\<close>

definition lists_holding :: "string option \<Rightarrow> app_state \<Rightarrow> string list" where
  "lists_holding bookId s =
     filter (\<lambda>n. case get_prop (userBooks s) n of OwnList xs \<Rightarrow> list_ex (has_id bookId) xs
                 | _ \<Rightarrow> False)
       [''currentlyReading'', ''wantToRead'', ''readBooks'']"

text \<open>
  The distinct elements of a sequence in the order of their first occurrence
  (\<open>remdups\<close> keeps last occurrences, hence the two reversals).
\<close>

definition first_occurrences :: "'a list \<Rightarrow> 'a list" where
  "first_occurrences xs = rev (remdups (rev xs))"

text \<open>
  The genres, authors and keywords of a reading history in scan order: book by book, and
  within a book title words before description words.
\<close>

definition all_genres :: "book list \<Rightarrow> string list" where
  "all_genres books =
     concat (map (\<lambda>b. case categories (info_or_empty b) of None \<Rightarrow> [] | Some cs \<Rightarrow> cs) books)"

definition all_authors :: "book list \<Rightarrow> string list" where
  "all_authors books =
     concat (map (\<lambda>b. case authors (info_or_empty b) of None \<Rightarrow> [] | Some auths \<Rightarrow> auths) books)"

definition all_keywords :: "book list \<Rightarrow> string list" where
  "all_keywords books =
     concat (map (\<lambda>b. text_words (title (info_or_empty b)) @
                       text_words (description (info_or_empty b))) books)"

text \<open>
  The conditions of the filter that do not depend on the pass: a non-empty id, a descriptive
  block with a cover URL (full-size or small thumbnail), an id that is not owned.
\<close>

definition eligible :: "string option list \<Rightarrow> book \<Rightarrow> bool" where
  "eligible owned b =
     (truthy (book_id b) \<and>
      (case volumeInfo b of None \<Rightarrow> False | Some info \<Rightarrow> has_cover info) \<and>
      book_id b \<notin> set owned)"

text \<open>
  The two numbers the ranking is stated in: the \<open>averageRating\<close> and the \<open>ratingsCount\<close> of
  the descriptive block, each 0 when it is missing.
\<close>

definition rating_or_zero :: "book \<Rightarrow> rat" where
  "rating_or_zero b =
     (case volumeInfo b of
        None \<Rightarrow> 0
      | Some info \<Rightarrow> (case averageRating info of None \<Rightarrow> 0 | Some r \<Rightarrow> r))"

definition count_or_zero :: "book \<Rightarrow> rat" where
  "count_or_zero b =
     (case volumeInfo b of
        None \<Rightarrow> 0
      | Some info \<Rightarrow> (case ratingsCount info of None \<Rightarrow> 0 | Some c \<Rightarrow> c))"

text \<open>The sort key of the comparator: rating descending, then count descending.\<close>

definition rank_key :: "book \<Rightarrow> rat \<times> rat" where
  "rank_key b = (- rating b, - rcount b)"

definition ranked_before :: "book \<Rightarrow> book \<Rightarrow> bool" where
  "ranked_before a b =
     (rating a > rating b \<or> (rating a = rating b \<and> rcount a \<ge> rcount b))"

text \<open>
  The identifier of the last entry of a given type, and the stripped identifier of the last
  \<open>OTHER\<close> entry that starts with \<open>OCLC\<close>; \<open>None\<close> when there is no such entry or the entry
  has no identifier.
\<close>

definition last_value :: "string \<Rightarrow> industry_identifier list \<Rightarrow> string option" where
  "last_value t ids =
     (case rev (filter (\<lambda>i. ident_type i = t) ids) of [] \<Rightarrow> None | i # _ \<Rightarrow> ident_value i)"

definition is_oclc :: "industry_identifier \<Rightarrow> bool" where
  "is_oclc i =
     (ident_type i = ''OTHER'' \<and>
      (case ident_value i of None \<Rightarrow> False | Some v \<Rightarrow> startsWith v ''OCLC''))"

definition last_oclc :: "industry_identifier list \<Rightarrow> string option" where
  "last_oclc ids =
     (case rev (filter is_oclc ids) of
        [] \<Rightarrow> None
      | i # _ \<Rightarrow> map_option (replace_first ''OCLC:'' []) (ident_value i))"

text \<open>
  The value a slot of the loop holds after a run that started with \<open>a\<close> in the slot.
\<close>

definition pick :: "string \<Rightarrow> string option \<Rightarrow> industry_identifier list \<Rightarrow> string option" where
  "pick t a ids =
     (case rev (filter (\<lambda>i. ident_type i = t) ids) of [] \<Rightarrow> a | i # _ \<Rightarrow> ident_value i)"

definition pick_oclc :: "string option \<Rightarrow> industry_identifier list \<Rightarrow> string option" where
  "pick_oclc a ids =
     (case rev (filter is_oclc ids) of
        [] \<Rightarrow> a
      | i # _ \<Rightarrow> map_option (replace_first ''OCLC:'' []) (ident_value i))"

text \<open>An entry the loop can take a key from.\<close>

definition usable :: "industry_identifier \<Rightarrow> bool" where
  "usable i =
     (((ident_type i = ''ISBN_13'' \<or> ident_type i = ''ISBN_10'') \<and> truthy (ident_value i)) \<or>
      is_oclc i)"

text \<open>
  The books of the three lists, and the invariant that no two of them share an id.
\<close>

definition all_listed :: "app_state \<Rightarrow> book list" where
  "all_listed s =
     currentlyReading (userBooks s) @ wantToRead (userBooks s) @ readBooks (userBooks s)"

definition distinct_ids :: "app_state \<Rightarrow> bool" where
  "distinct_ids s = distinct (map book_id (all_listed s))"

text \<open>
  The states reached from empty lists, with any cache contents, by the three operations
  when \<open>moveBookToList\<close> is called as its documentation expects: \<open>fromListName\<close> is the book's
  current list, or the book is in no list.
\<close>

inductive documented_run :: "app_state \<Rightarrow> bool" where
  start: "userBooks s = \<lparr>currentlyReading = [], wantToRead = [], readBooks = []\<rparr>
            \<Longrightarrow> documented_run s"
| caches: "documented_run s
            \<Longrightarrow> documented_run (s\<lparr>lastSearchResults := xs, recommendationsCache := ys\<rparr>)"
| add: "documented_run s \<Longrightarrow> documented_run (snd (addBookToList b listName s))"
| remove: "documented_run s \<Longrightarrow> documented_run (snd (removeBookFromList bookId listName s))"
| move: "documented_run s \<Longrightarrow>
           (\<exists>f. fromListName = Some f \<and> get_prop (userBooks s) f \<noteq> Undefined) \<or>
             \<not> in_any_list bookId s \<Longrightarrow>
           documented_run (snd (moveBookToList bookId fromListName toListName s))"

subsection \<open>Example data\<close>

definition B1 :: book where
  "B1 = \<lparr>book_id = Some ''B1'', volumeInfo = None\<rparr>"

definition B2 :: book where
  "B2 = \<lparr>book_id = Some ''B2'', volumeInfo = None\<rparr>"

definition no_books :: user_books where
  "no_books = \<lparr>currentlyReading = [], wantToRead = [], readBooks = []\<rparr>"

text \<open>Empty lists, with \<open>B1\<close> among the last search results.\<close>

definition fresh_state :: app_state where
  "fresh_state = \<lparr>userBooks = no_books, lastSearchResults = [B1], recommendationsCache = []\<rparr>"

text \<open>\<open>B1\<close> is in \<open>readBooks\<close>; both caches are empty.\<close>

definition read_B1_state :: app_state where
  "read_B1_state =
     \<lparr>userBooks = \<lparr>currentlyReading = [], wantToRead = [], readBooks = [B1]\<rparr>,
      lastSearchResults = [], recommendationsCache = []\<rparr>"

text \<open>\<open>wantToRead\<close> holds two entries with the id of \<open>B1\<close>.\<close>

definition twice_B1_state :: app_state where
  "twice_B1_state =
     \<lparr>userBooks = \<lparr>currentlyReading = [], wantToRead = [B1, B2, B1], readBooks = []\<rparr>,
      lastSearchResults = [], recommendationsCache = []\<rparr>"

text \<open>The id of \<open>B1\<close> is held by two lists; \<open>B1\<close> is among the last search results.\<close>

definition listed_twice_state :: app_state where
  "listed_twice_state =
     \<lparr>userBooks = \<lparr>currentlyReading = [], wantToRead = [B1], readBooks = [B1]\<rparr>,
      lastSearchResults = [B1], recommendationsCache = []\<rparr>"

text \<open>Two catalog entries with the same id, the first without a cover URL.\<close>

definition no_cover_X :: book where
  "no_cover_X = \<lparr>book_id = Some ''X'', volumeInfo = Some no_info\<rparr>"

definition cover_X :: book where
  "cover_X =
     \<lparr>book_id = Some ''X'',
      volumeInfo = Some (no_info\<lparr>imageLinks :=
        Some \<lparr>thumbnail = Some ''http://books.example/x.jpg'', smallThumbnail = None\<rparr>\<rparr>)\<rparr>"

text \<open>A catalog entry with the id of \<open>B1\<close> and a cover URL.\<close>

definition cover_B1 :: book where
  "cover_B1 =
     \<lparr>book_id = Some ''B1'',
      volumeInfo = Some (no_info\<lparr>imageLinks :=
        Some \<lparr>thumbnail = None, smallThumbnail = Some ''http://books.example/b1.jpg''\<rparr>\<rparr>)\<rparr>"

text \<open>A book with a rating and a ratings count.\<close>

definition rated :: "string \<Rightarrow> rat \<Rightarrow> rat \<Rightarrow> book" where
  "rated i r c =
     \<lparr>book_id = Some i,
      volumeInfo = Some (no_info\<lparr>averageRating := Some r, ratingsCount := Some c\<rparr>)\<rparr>"

text \<open>A catalog on which every request fails.\<close>

definition all_fail :: catalog where
  "all_fail = (\<lambda>q. Inl RequestFailed)"

text \<open>A descriptive block with an ISBN-10, an ISBN-13 and an OCLC identifier.\<close>

definition hobbit_info :: volume_info where
  "hobbit_info =
     no_info\<lparr>industryIdentifiers := Some
       [\<lparr>ident_type = ''ISBN_10'', ident_value = Some ''0261103342''\<rparr>,
        \<lparr>ident_type = ''ISBN_13'', ident_value = Some ''9780261103344''\<rparr>,
        \<lparr>ident_type = ''OTHER'', ident_value = Some ''OCLC:1234''\<rparr>]\<rparr>"

text \<open>A read book with categories (one repeated), an author and a title.\<close>

definition hobbit :: book where
  "hobbit =
     \<lparr>book_id = Some ''h1'',
      volumeInfo = Some (hobbit_info\<lparr>title := Some ''The Hobbit: There and Back Again'',
        authors := Some [''J. R. R. Tolkien''],
        categories := Some [''Fantasy'', ''Fiction'', ''Fantasy'']\<rparr>)\<rparr>"

text \<open>A second record with the id of \<open>B1\<close>, and \<open>readBooks\<close> holding both.\<close>

definition B1_again :: book where
  "B1_again = \<lparr>book_id = Some ''B1'', volumeInfo = Some no_info\<rparr>"

definition read_twice_state :: app_state where
  "read_twice_state =
     \<lparr>userBooks = \<lparr>currentlyReading = [], wantToRead = [], readBooks = [B1, B1_again]\<rparr>,
      lastSearchResults = [], recommendationsCache = []\<rparr>"

text \<open>
  A book whose id is the empty string, held by \<open>wantToRead\<close> and by the search cache.
\<close>

definition nameless :: book where
  "nameless = \<lparr>book_id = Some [], volumeInfo = None\<rparr>"

definition nameless_state :: app_state where
  "nameless_state =
     \<lparr>userBooks = \<lparr>currentlyReading = [], wantToRead = [nameless], readBooks = []\<rparr>,
      lastSearchResults = [nameless], recommendationsCache = []\<rparr>"

text \<open>Books with a rating but no ratings count, and with neither.\<close>

definition half_rated :: "string \<Rightarrow> rat \<Rightarrow> book" where
  "half_rated i r =
     \<lparr>book_id = Some i, volumeInfo = Some (no_info\<lparr>averageRating := Some r\<rparr>)\<rparr>"

definition unrated :: "string \<Rightarrow> book" where
  "unrated i = \<lparr>book_id = Some i, volumeInfo = Some no_info\<rparr>"

text \<open>
  A list to rank: a tie on the rating given in ascending count order, an exact tie (\<open>a\<close> and
  \<open>d\<close>), and missing numbers.
\<close>

definition ranking_input :: "book list" where
  "ranking_input =
     [rated ''a'' (9/2) 50, unrated ''u'', rated ''b'' (9/2) 100, rated ''c'' 5 10,
      rated ''d'' (9/2) 50, half_rated ''h'' (9/2)]"

text \<open>
  Descriptive blocks in which a later \<open>ISBN_13\<close> entry has no identifier, or an empty one.
\<close>

definition masked_info :: volume_info where
  "masked_info =
     no_info\<lparr>industryIdentifiers := Some
       [\<lparr>ident_type = ''ISBN_10'', ident_value = Some ''0261103342''\<rparr>,
        \<lparr>ident_type = ''ISBN_13'', ident_value = Some ''9780261103344''\<rparr>,
        \<lparr>ident_type = ''ISBN_13'', ident_value = None\<rparr>]\<rparr>"

definition masked_only_info :: volume_info where
  "masked_only_info =
     no_info\<lparr>industryIdentifiers := Some
       [\<lparr>ident_type = ''ISBN_13'', ident_value = Some ''9780261103344''\<rparr>,
        \<lparr>ident_type = ''ISBN_13'', ident_value = Some []\<rparr>]\<rparr>"

section \<open>Properties of the List Manager\<close>

subsection \<open>Property lookup and list update\<close>

lemma get_prop_set_list_same:
  "get_prop (userBooks s) n = OwnList xs \<Longrightarrow>
     get_prop (userBooks (set_list n ys s)) n = OwnList ys"
  by (auto simp: get_prop_def set_list_def split: if_splits)

lemma get_prop_set_list_other:
  "m \<noteq> n \<Longrightarrow> get_prop (userBooks (set_list n ys s)) m = get_prop (userBooks s) m"
  by (auto simp: get_prop_def set_list_def)

lemma set_list_id:
  "get_prop (userBooks s) n = OwnList xs \<Longrightarrow> set_list n xs s = s"
  by (auto simp: get_prop_def set_list_def split: if_splits)

lemma get_prop_empty_name: "get_prop ub [] = Undefined"
  by (simp add: get_prop_def object_prototype_names_def)

lemma in_any_list_iff:
  "in_any_list i s \<longleftrightarrow>
     list_ex (\<lambda>l. list_ex (\<lambda>e. book_id e = i) l) (object_values (userBooks s))"
  by (auto simp: in_any_list_def list_ex_iff)

subsection \<open>Lists\<close>

lemma filter_length_less_iff:
  "length (filter P xs) < length xs \<longleftrightarrow> (\<exists>x\<in>set xs. \<not> P x)"
  by (induction xs) (auto simp: less_Suc_eq_le)

lemma filter_keeps_all:
  "\<not> (\<exists>x\<in>set xs. \<not> P x) \<Longrightarrow> filter P xs = xs"
  by (induction xs) auto

lemma find_None_list_ex: "find p xs = None \<longleftrightarrow> \<not> list_ex p xs"
  by (induction xs) auto

lemma find_Some_holds: "find p xs = Some b \<Longrightarrow> p b \<and> b \<in> set xs"
  by (induction xs) (auto split: if_splits)

lemma length_remove_first:
  "list_ex p xs \<Longrightarrow> Suc (length (remove_first p xs)) = length xs"
  by (induction xs) auto

lemma filter_remove_first:
  "list_ex p xs \<Longrightarrow> Suc (length (filter p (remove_first p xs))) = length (filter p xs)"
  by (induction xs) auto

lemma list_ex_filter_length: "list_ex p xs \<longleftrightarrow> 0 < length (filter p xs)"
  by (induction xs) auto

subsection \<open>Removing a book\<close>

text \<open>
  Claim C4 as stated fails. A book whose id is the empty string is present in \<open>wantToRead\<close>,
  and \<open>removeBookFromList("", "wantToRead")\<close> returns false and removes nothing. No book is
  present under \<open>toString\<close>, and \<open>removeBookFromList("B1", "toString")\<close> throws instead of
  returning false.
\<close>

theorem removeBookFromList_guard_counterexample:
  "list_ex (has_id (Some [])) (wantToRead (userBooks nameless_state)) \<and>
   removeBookFromList (Some []) ''wantToRead'' nameless_state = (Returns False, nameless_state) \<and>
   removeBookFromList (Some ''B1'') ''toString'' nameless_state = (Throws, nameless_state)"
  by (simp add: nameless_state_def nameless_def has_id_def removeBookFromList_def truthy_def
      get_prop_def object_prototype_names_def)

text \<open>
  Claim C4, amended. Let \<open>listName\<close> be one of the three list names or a name that is no
  property of the lists object at all (not a name inherited from \<open>Object.prototype\<close>, such as
  \<open>toString\<close>). When \<open>bookId\<close> is not empty and \<open>listName\<close> is a list holding a book with that
  id, \<open>removeBookFromList(bookId, listName)\<close> returns true and the list becomes the list
  without the entries of that id, the other lists and the caches being as before. In every
  other case (no such book there, \<open>listName\<close> no list, an empty \<open>bookId\<close>) it returns false
  and the state is unchanged.
\<close>

theorem removeBookFromList_contract:
  assumes "get_prop (userBooks s) listName \<noteq> Inherited"
  shows "(\<forall>xs. truthy bookId \<and> get_prop (userBooks s) listName = OwnList xs \<and>
              (\<exists>b\<in>set xs. book_id b = bookId) \<longrightarrow>
            removeBookFromList bookId listName s =
              (Returns True, set_list listName (filter (\<lambda>b. book_id b \<noteq> bookId) xs) s)) \<and>
         (\<not> (truthy bookId \<and> (\<exists>xs. get_prop (userBooks s) listName = OwnList xs \<and>
              (\<exists>b\<in>set xs. book_id b = bookId))) \<longrightarrow>
            removeBookFromList bookId listName s = (Returns False, s))"
proof (cases "get_prop (userBooks s) listName")
  case (OwnList xs)
  then show ?thesis
    by (auto simp: removeBookFromList_def Let_def filter_length_less_iff filter_keeps_all
        set_list_id)
next
  case Inherited
  with assms show ?thesis by simp
next
  case Undefined
  then show ?thesis by (simp add: removeBookFromList_def)
qed

text \<open>
  The contract at a concrete state: removing \<open>B1\<close> from \<open>wantToRead = [B1, B2, B1]\<close> succeeds
  and leaves \<open>[B2]\<close>; removing \<open>B2\<close> from the empty \<open>readBooks\<close> fails and changes nothing.
\<close>

theorem removeBookFromList_contract_witness:
  "get_prop (userBooks twice_B1_state) ''wantToRead'' \<noteq> Inherited \<and>
   removeBookFromList (Some ''B1'') ''wantToRead'' twice_B1_state =
     (Returns True, set_list ''wantToRead'' [B2] twice_B1_state) \<and>
   removeBookFromList (Some ''B2'') ''readBooks'' twice_B1_state = (Returns False, twice_B1_state)"
proof -
  have w: "get_prop (userBooks twice_B1_state) ''wantToRead'' = OwnList [B1, B2, B1]"
    by (simp add: get_prop_def twice_B1_state_def)
  have r: "get_prop (userBooks twice_B1_state) ''readBooks'' = OwnList []"
    by (simp add: get_prop_def twice_B1_state_def)
  have 1: "removeBookFromList (Some ''B1'') ''wantToRead'' twice_B1_state =
     (Returns True, set_list ''wantToRead'' [B2] twice_B1_state)"
    using removeBookFromList_contract [of twice_B1_state "''wantToRead''" "Some ''B1''"] w
    by (simp add: truthy_def B1_def B2_def)
  have 2: "removeBookFromList (Some ''B2'') ''readBooks'' twice_B1_state
             = (Returns False, twice_B1_state)"
    using removeBookFromList_contract [of twice_B1_state "''readBooks''" "Some ''B2''"] r
    by simp
  from w 1 2 show ?thesis by simp
qed

text \<open>
  Claim C10. A successful \<open>removeBookFromList(bookId, listName)\<close> filters the whole list:
  \<open>listName\<close> is one of the three lists, it becomes the old list without every entry whose id
  is \<open>bookId\<close>, and the id then occurs zero times there, however often it occurred before.
\<close>

theorem removeBookFromList_removes_all:
  assumes "removeBookFromList bookId listName s = (Returns True, s')"
  shows "\<exists>xs. get_prop (userBooks s) listName = OwnList xs \<and>
           get_prop (userBooks s') listName = OwnList (filter (\<lambda>b. book_id b \<noteq> bookId) xs) \<and>
           id_count bookId (filter (\<lambda>b. book_id b \<noteq> bookId) xs) = 0"
  using assms
  by (auto simp: removeBookFromList_def Let_def get_prop_set_list_same id_count_def has_id_def
      split: if_splits property_value.splits)

text \<open>
  A list with two entries of the id of \<open>B1\<close>: one successful removal leaves none of them.
\<close>

theorem removeBookFromList_removes_all_witness:
  "id_count (Some ''B1'') (wantToRead (userBooks twice_B1_state)) = 2 \<and>
   removeBookFromList (Some ''B1'') ''wantToRead'' twice_B1_state =
     (Returns True, set_list ''wantToRead'' [B2] twice_B1_state) \<and>
   get_prop (userBooks (set_list ''wantToRead'' [B2] twice_B1_state)) ''wantToRead''
     = OwnList [B2] \<and>
   id_count (Some ''B1'') [B2] = 0"
proof -
  have w: "get_prop (userBooks twice_B1_state) ''wantToRead'' = OwnList [B1, B2, B1]"
    by (simp add: get_prop_def twice_B1_state_def)
  have f: "filter (\<lambda>b. book_id b \<noteq> Some ''B1'') [B1, B2, B1] = [B2]"
    by (simp add: B1_def B2_def)
  have c: "id_count (Some ''B1'') (wantToRead (userBooks twice_B1_state)) = 2"
    by (simp add: id_count_def has_id_def twice_B1_state_def B1_def B2_def)
  have run: "removeBookFromList (Some ''B1'') ''wantToRead'' twice_B1_state =
     (Returns True, set_list ''wantToRead'' [B2] twice_B1_state)"
    using w f by (simp add: removeBookFromList_def truthy_def Let_def)
  from removeBookFromList_removes_all [OF run] w f c run show ?thesis by simp
qed

subsection \<open>Adding a book\<close>

text \<open>
  Claim C3 as stated fails. The id of \<open>B1\<close> is in no list, yet \<open>B1\<close> is not appended: with
  \<open>listName\<close> a name that is no property of the lists object \<open>addBookToList\<close> returns false,
  and with the inherited name \<open>constructor\<close> it throws at the \<open>push\<close>. A book without an id is
  not appended either.
\<close>

theorem addBookToList_guard_counterexample:
  "truthy (book_id B1) \<and> \<not> in_any_list (book_id B1) fresh_state \<and>
   addBookToList B1 ''favorites'' fresh_state = (Returns False, fresh_state) \<and>
   addBookToList B1 ''constructor'' fresh_state = (Throws, fresh_state) \<and>
   \<not> in_any_list None fresh_state \<and>
   addBookToList \<lparr>book_id = None, volumeInfo = None\<rparr> ''wantToRead'' fresh_state
     = (Returns False, fresh_state)"
  by (simp add: in_any_list_def object_values_def fresh_state_def no_books_def B1_def
      addBookToList_def get_prop_def object_prototype_names_def truthy_def)

text \<open>
  Claim C3, amended. \<open>addBookToList(book, listName)\<close> returns false and changes nothing if
  the id of the book is already in any of the three lists, whatever \<open>listName\<close> is. It also
  returns false and changes nothing when the book has no (non-empty) id, or when \<open>listName\<close>
  is no property of the lists object at all (neither one of the three list names nor a name
  inherited from \<open>Object.prototype\<close>). For a book with an id that is in no list and \<open>listName\<close>
  one of the three lists, it appends the book to \<open>listName\<close> and returns true. In particular,
  for a book with an id that is in no list: adding it to \<open>wantToRead\<close> returns true,
  \<open>getBookListStatus\<close> then answers \<open>wantToRead\<close>, and adding it to \<open>readBooks\<close> then returns
  false.
\<close>

theorem addBookToList_contract:
  "(in_any_list (book_id b) s \<longrightarrow> addBookToList b listName s = (Returns False, s)) \<and>
   (\<not> truthy (book_id b) \<or> get_prop (userBooks s) listName = Undefined \<longrightarrow>
      addBookToList b listName s = (Returns False, s)) \<and>
   (truthy (book_id b) \<and> get_prop (userBooks s) listName = OwnList xs \<and>
    \<not> in_any_list (book_id b) s \<longrightarrow>
      addBookToList b listName s = (Returns True, set_list listName (xs @ [b]) s)) \<and>
   (truthy (book_id b) \<and> \<not> in_any_list (book_id b) s \<longrightarrow>
      (\<exists>s1. addBookToList b ''wantToRead'' s = (Returns True, s1) \<and>
            getBookListStatus (book_id b) s1 = Some ''wantToRead'' \<and>
            addBookToList b ''readBooks'' s1 = (Returns False, s1)))"
proof (intro conjI impI)
  assume "in_any_list (book_id b) s"
  then show "addBookToList b listName s = (Returns False, s)"
    by (simp add: addBookToList_def in_any_list_iff)
next
  assume "\<not> truthy (book_id b) \<or> get_prop (userBooks s) listName = Undefined"
  then show "addBookToList b listName s = (Returns False, s)"
    by (auto simp: addBookToList_def)
next
  assume "truthy (book_id b) \<and> get_prop (userBooks s) listName = OwnList xs \<and>
    \<not> in_any_list (book_id b) s"
  then show "addBookToList b listName s = (Returns True, set_list listName (xs @ [b]) s)"
    by (simp add: addBookToList_def in_any_list_iff)
next
  assume a: "truthy (book_id b) \<and> \<not> in_any_list (book_id b) s"
  let ?s1 = "set_list ''wantToRead'' (wantToRead (userBooks s) @ [b]) s"
  have w: "get_prop (userBooks s) ''wantToRead'' = OwnList (wantToRead (userBooks s))"
    by (simp add: get_prop_def)
  from a w have 1: "addBookToList b ''wantToRead'' s = (Returns True, ?s1)"
    by (simp add: addBookToList_def in_any_list_iff)
  from a have 2: "getBookListStatus (book_id b) ?s1 = Some ''wantToRead''"
    by (auto simp: getBookListStatus_def set_list_def in_any_list_def object_values_def
        list_ex_iff has_id_def)
  have "in_any_list (book_id b) ?s1"
    by (auto simp: in_any_list_def object_values_def set_list_def)
  with a have 3: "addBookToList b ''readBooks'' ?s1 = (Returns False, ?s1)"
    by (simp add: addBookToList_def in_any_list_iff get_prop_def)
  from 1 2 3 show "\<exists>s1. addBookToList b ''wantToRead'' s = (Returns True, s1) \<and>
            getBookListStatus (book_id b) s1 = Some ''wantToRead'' \<and>
            addBookToList b ''readBooks'' s1 = (Returns False, s1)"
    by blast
qed

text \<open>The scenario of the claim, run on \<open>B1\<close> from empty lists.\<close>

theorem addBookToList_contract_witness:
  "truthy (book_id B1) \<and> \<not> in_any_list (book_id B1) fresh_state \<and>
   get_prop (userBooks fresh_state) ''wantToRead'' = OwnList [] \<and>
   addBookToList B1 ''wantToRead'' fresh_state
     = (Returns True, set_list ''wantToRead'' [B1] fresh_state) \<and>
   getBookListStatus (book_id B1) (set_list ''wantToRead'' [B1] fresh_state)
     = Some ''wantToRead'' \<and>
   addBookToList B1 ''readBooks'' (set_list ''wantToRead'' [B1] fresh_state)
     = (Returns False, set_list ''wantToRead'' [B1] fresh_state)"
proof -
  have t: "truthy (book_id B1)" by (simp add: truthy_def B1_def)
  have n: "\<not> in_any_list (book_id B1) fresh_state"
    by (simp add: in_any_list_def object_values_def fresh_state_def no_books_def)
  have w: "get_prop (userBooks fresh_state) ''wantToRead'' = OwnList []"
    by (simp add: get_prop_def fresh_state_def no_books_def)
  from addBookToList_contract [of B1 fresh_state "''wantToRead''" "[]"] t n w
  show ?thesis by auto
qed

subsection \<open>Moving a book\<close>

text \<open>
  Claim C2 as stated fails, each time with the id already in the target list. The call
  returns false when the book cannot be located, with \<open>fromListName\<close> absent (the book is in
  neither cache) and with it given (the book is not in that list). It throws when
  \<open>fromListName\<close> is the inherited name \<open>toString\<close>. It returns false for the empty id, though
  the search cache and the target hold a book with it. And when \<open>readBooks\<close> holds two entries
  of the id and the book is moved from \<open>readBooks\<close> to \<open>readBooks\<close>, the call returns true but
  the list shrinks from two entries to one.
\<close>

theorem moveBookToList_unlocated_counterexample:
  "list_ex (has_id (Some ''B1'')) (readBooks (userBooks read_B1_state)) \<and>
   moveBookToList (Some ''B1'') None ''readBooks'' read_B1_state
     = (Returns False, read_B1_state) \<and>
   moveBookToList (Some ''B1'') (Some ''wantToRead'') ''readBooks'' read_B1_state
     = (Returns False, read_B1_state) \<and>
   moveBookToList (Some ''B1'') (Some ''toString'') ''readBooks'' read_B1_state
     = (Throws, read_B1_state) \<and>
   list_ex (has_id (Some [])) (wantToRead (userBooks nameless_state)) \<and>
   moveBookToList (Some []) None ''wantToRead'' nameless_state
     = (Returns False, nameless_state) \<and>
   readBooks (userBooks read_twice_state) = [B1, B1_again] \<and>
   moveBookToList (Some ''B1'') (Some ''readBooks'') ''readBooks'' read_twice_state
     = (Returns True, set_list ''readBooks'' [B1_again] read_twice_state) \<and>
   readBooks (userBooks (set_list ''readBooks'' [B1_again] read_twice_state)) = [B1_again]"
  by (simp add: read_B1_state_def read_twice_state_def nameless_state_def B1_def B1_again_def
      nameless_def has_id_def moveBookToList_def locate_book_def find_in_caches_def
      get_prop_def set_list_def truthy_def object_prototype_names_def)

lemma moveBookToList_located:
  assumes tr: "truthy bookId"
    and tgt: "get_prop (userBooks s) toListName = OwnList ts"
    and inT: "list_ex (has_id bookId) ts"
    and src: "\<forall>f. fromListName = Some f \<longrightarrow> get_prop (userBooks s) f \<noteq> Inherited"
    and loc: "located bookId fromListName s"
    and once: "fromListName = Some toListName \<longrightarrow> id_count bookId ts = 1"
  shows "\<exists>s' ts'. moveBookToList bookId fromListName toListName s = (Returns True, s') \<and>
           get_prop (userBooks s') toListName = OwnList ts' \<and>
           length ts' = length ts \<and> id_count bookId ts' = id_count bookId ts"
proof -
  have guard: "\<not> (\<not> truthy bookId \<or> get_prop (userBooks s) toListName = Undefined)"
    using tr tgt by simp
  show ?thesis
  proof (cases "\<exists>f fs. fromListName = Some f \<and> get_prop (userBooks s) f = OwnList fs")
    case True
    then obtain f fs where f: "fromListName = Some f" "get_prop (userBooks s) f = OwnList fs"
      by blast
    with loc have ex: "list_ex (has_id bookId) fs"
      by (simp add: located_def source_list_def)
    then obtain b where b: "find (has_id bookId) fs = Some b"
      using find_None_list_ex [of "has_id bookId" fs] by (cases "find (has_id bookId) fs") auto
    have hb: "has_id bookId b" using find_Some_holds [OF b] by simp
    have fne: "f \<noteq> []" using f(2) get_prop_empty_name by auto
    let ?s1 = "set_list f (remove_first (has_id bookId) fs) s"
    have L: "locate_book bookId fromListName s = Some (Some b, ?s1)"
      using f b fne by (simp add: locate_book_def)
    show ?thesis
    proof (cases "f = toListName")
      case False
      then have t1: "get_prop (userBooks ?s1) toListName = OwnList ts"
        using tgt by (simp add: get_prop_set_list_other)
      have "moveBookToList bookId fromListName toListName s = (Returns True, ?s1)"
        using guard L t1 inT by (simp add: moveBookToList_def)
      with t1 show ?thesis by blast
    next
      case True
      with f tgt have fs: "fs = ts" by simp
      from once f True have c1: "id_count bookId ts = 1" by simp
      let ?r = "remove_first (has_id bookId) ts"
      have t1: "get_prop (userBooks ?s1) toListName = OwnList ?r"
        using tgt True fs by (simp add: get_prop_set_list_same)
      have "length (filter (has_id bookId) ?r) = 0"
        using filter_remove_first [OF inT] c1 by (simp add: id_count_def)
      then have nin: "\<not> list_ex (has_id bookId) ?r"
        by (simp add: list_ex_filter_length)
      let ?s2 = "set_list toListName (?r @ [b]) ?s1"
      have M: "moveBookToList bookId fromListName toListName s = (Returns True, ?s2)"
        using guard L t1 nin by (simp add: moveBookToList_def)
      have t2: "get_prop (userBooks ?s2) toListName = OwnList (?r @ [b])"
        using t1 by (rule get_prop_set_list_same)
      have len: "length (?r @ [b]) = length ts"
        using length_remove_first [OF inT] by simp
      have cnt: "id_count bookId (?r @ [b]) = id_count bookId ts"
        using filter_remove_first [OF inT] hb by (simp add: id_count_def)
      from M t2 len cnt show ?thesis by blast
    qed
  next
    case False
    with loc have c: "find_in_caches bookId s \<noteq> None"
      by (auto simp: located_def source_list_def split: option.splits property_value.splits)
    then obtain b where b: "find_in_caches bookId s = Some b" by auto
    from False src have L: "locate_book bookId fromListName s = Some (Some b, s)"
      using b
      by (auto simp: locate_book_def split: option.splits property_value.splits)
    have "moveBookToList bookId fromListName toListName s = (Returns True, s)"
      using guard L tgt inT by (simp add: moveBookToList_def)
    with tgt show ?thesis by blast
  qed
qed

lemma moveBookToList_unlocated:
  assumes src: "\<forall>f. fromListName = Some f \<longrightarrow> get_prop (userBooks s) f \<noteq> Inherited"
    and nloc: "\<not> located bookId fromListName s"
  shows "moveBookToList bookId fromListName toListName s = (Returns False, s)"
proof (cases "\<not> truthy bookId \<or> get_prop (userBooks s) toListName = Undefined")
  case True
  then show ?thesis by (simp add: moveBookToList_def)
next
  case guard: False
  have "locate_book bookId fromListName s = Some (None, s)"
  proof (cases "\<exists>f fs. fromListName = Some f \<and> get_prop (userBooks s) f = OwnList fs")
    case True
    then obtain f fs where f: "fromListName = Some f" "get_prop (userBooks s) f = OwnList fs"
      by blast
    with nloc have "\<not> list_ex (has_id bookId) fs"
      by (simp add: located_def source_list_def)
    then have "find (has_id bookId) fs = None" by (simp add: find_None_list_ex)
    moreover have "f \<noteq> []" using f(2) get_prop_empty_name by auto
    ultimately show ?thesis using f by (simp add: locate_book_def)
  next
    case False
    with nloc have "find_in_caches bookId s = None"
      by (auto simp: located_def source_list_def split: option.splits property_value.splits)
    with False src show ?thesis
      by (auto simp: locate_book_def split: option.splits property_value.splits)
  qed
  with guard show ?thesis by (simp add: moveBookToList_def)
qed

text \<open>
  Claim C2, amended. Let \<open>bookId\<close> be not empty, let the target \<open>toListName\<close> be one of the
  three lists and hold the id already, and let \<open>fromListName\<close> be absent, one of the three
  list names, or a name that is no property of the lists object at all (not a name inherited
  from \<open>Object.prototype\<close>). If the book can be located (in \<open>fromListName\<close> when that is one of
  the three lists, otherwise in the search cache or the recommendation cache) and, in case
  \<open>fromListName\<close> is the target list itself, the target holds the id exactly once, then
  \<open>moveBookToList\<close> returns true and the target list has afterwards the same length and the
  same number of entries with that id. If the book cannot be located, \<open>moveBookToList\<close>
  returns false and the state is unchanged.
\<close>

theorem moveBookToList_idempotent:
  assumes tr: "truthy bookId"
    and tgt: "get_prop (userBooks s) toListName = OwnList ts"
    and inT: "list_ex (has_id bookId) ts"
    and src: "\<forall>f. fromListName = Some f \<longrightarrow> get_prop (userBooks s) f \<noteq> Inherited"
  shows "(located bookId fromListName s \<and>
          (fromListName = Some toListName \<longrightarrow> id_count bookId ts = 1) \<longrightarrow>
            (\<exists>s' ts'. moveBookToList bookId fromListName toListName s = (Returns True, s') \<and>
               get_prop (userBooks s') toListName = OwnList ts' \<and>
               length ts' = length ts \<and> id_count bookId ts' = id_count bookId ts)) \<and>
         (\<not> located bookId fromListName s \<longrightarrow>
            moveBookToList bookId fromListName toListName s = (Returns False, s))"
  using moveBookToList_located [OF tr tgt inT src] moveBookToList_unlocated [OF src]
  by blast

text \<open>
  Three runs with \<open>B1\<close> already in \<open>readBooks\<close>: moved from \<open>readBooks\<close> to itself; moved with
  \<open>fromListName\<close> absent while \<open>B1\<close> is in the search cache; and moved with \<open>fromListName\<close>
  absent while \<open>B1\<close> is in neither cache. The first two return true and \<open>readBooks\<close> is
  \<open>[B1]\<close> afterwards, the third returns false.
\<close>

theorem moveBookToList_idempotent_witness:
  "truthy (Some ''B1'') \<and>
   get_prop (userBooks read_B1_state) ''readBooks'' = OwnList [B1] \<and>
   list_ex (has_id (Some ''B1'')) [B1] \<and>
   located (Some ''B1'') (Some ''readBooks'') read_B1_state \<and>
   id_count (Some ''B1'') [B1] = 1 \<and>
   moveBookToList (Some ''B1'') (Some ''readBooks'') ''readBooks'' read_B1_state
     = (Returns True, read_B1_state) \<and>
   located (Some ''B1'') None listed_twice_state \<and>
   moveBookToList (Some ''B1'') None ''readBooks'' listed_twice_state
     = (Returns True, listed_twice_state) \<and>
   \<not> located (Some ''B1'') None read_B1_state \<and>
   moveBookToList (Some ''B1'') None ''readBooks'' read_B1_state
     = (Returns False, read_B1_state)"
proof -
  have tr: "truthy (Some ''B1'')" by (simp add: truthy_def)
  have tgt: "get_prop (userBooks read_B1_state) ''readBooks'' = OwnList [B1]"
    by (simp add: get_prop_def read_B1_state_def)
  have inT: "list_ex (has_id (Some ''B1'')) [B1]" by (simp add: has_id_def B1_def)
  have src: "\<forall>f. Some ''readBooks'' = Some f \<longrightarrow>
               get_prop (userBooks read_B1_state) f \<noteq> Inherited"
    using tgt by simp
  have loc: "located (Some ''B1'') (Some ''readBooks'') read_B1_state"
    using tgt inT by (simp add: located_def source_list_def)
  have once: "id_count (Some ''B1'') [B1] = 1" by (simp add: id_count_def has_id_def B1_def)
  have run1: "moveBookToList (Some ''B1'') (Some ''readBooks'') ''readBooks'' read_B1_state
     = (Returns True, read_B1_state)"
    using moveBookToList_idempotent [OF tr tgt inT src] loc once
    by (simp add: moveBookToList_def locate_book_def get_prop_def set_list_def truthy_def
        read_B1_state_def has_id_def B1_def object_prototype_names_def)
  have tgt2: "get_prop (userBooks listed_twice_state) ''readBooks'' = OwnList [B1]"
    by (simp add: get_prop_def listed_twice_state_def)
  have src0: "\<And>s. \<forall>f. None = Some f \<longrightarrow> get_prop (userBooks s) f \<noteq> Inherited"
    by simp
  have loc2: "located (Some ''B1'') None listed_twice_state"
    by (simp add: located_def source_list_def find_in_caches_def listed_twice_state_def
        has_id_def B1_def)
  have run2: "moveBookToList (Some ''B1'') None ''readBooks'' listed_twice_state
     = (Returns True, listed_twice_state)"
    using moveBookToList_idempotent [OF tr tgt2 inT src0] loc2
    by (simp add: moveBookToList_def locate_book_def find_in_caches_def get_prop_def
        truthy_def listed_twice_state_def has_id_def B1_def)
  have nloc: "\<not> located (Some ''B1'') None read_B1_state"
    by (simp add: located_def source_list_def find_in_caches_def read_B1_state_def)
  have run3: "moveBookToList (Some ''B1'') None ''readBooks'' read_B1_state
     = (Returns False, read_B1_state)"
    using moveBookToList_idempotent [OF tr tgt inT src0] nloc by blast
  from tr tgt inT loc once run1 loc2 run2 nloc run3 show ?thesis by simp
qed

text \<open>
  Claim C1 fails on the code. From empty lists, with \<open>B1\<close> among the last search results:
  \<open>addBookToList(B1, "wantToRead")\<close> succeeds, and \<open>moveBookToList("B1", null, "readBooks")\<close>
  then finds \<open>B1\<close> in the search cache, checks the target list only and appends it, so that
  the id of \<open>B1\<close> is held by \<open>wantToRead\<close> and by \<open>readBooks\<close>.
\<close>

theorem moveBookToList_from_cache_lists_twice:
  "addBookToList B1 ''wantToRead'' fresh_state
     = (Returns True, set_list ''wantToRead'' [B1] fresh_state) \<and>
   moveBookToList (Some ''B1'') None ''readBooks'' (set_list ''wantToRead'' [B1] fresh_state)
     = (Returns True, listed_twice_state) \<and>
   lists_holding (Some ''B1'') listed_twice_state = [''wantToRead'', ''readBooks'']"
  by (simp add: addBookToList_def moveBookToList_def locate_book_def find_in_caches_def
      get_prop_def set_list_def truthy_def object_values_def lists_holding_def has_id_def
      fresh_state_def listed_twice_state_def no_books_def B1_def object_prototype_names_def)

text \<open>The two calls succeed and leave the id in two lists.\<close>

theorem moveBookToList_from_cache_lists_twice_witness:
  "fst (moveBookToList (Some ''B1'') None ''readBooks''
          (snd (addBookToList B1 ''wantToRead'' fresh_state))) = Returns True \<and>
   length (lists_holding (Some ''B1'')
     (snd (moveBookToList (Some ''B1'') None ''readBooks''
        (snd (addBookToList B1 ''wantToRead'' fresh_state))))) = 2"
  using moveBookToList_from_cache_lists_twice by simp

subsection \<open>Single membership when moves name their source\<close>

text \<open>
  \<open>addBookToList\<close> and \<open>removeBookFromList\<close> keep the ids of the listed books pairwise
  distinct, and so does \<open>moveBookToList\<close> unless it takes from a cache a book whose id is
  already listed.
\<close>

lemma in_any_list_all_listed: "in_any_list i s \<longleftrightarrow> i \<in> book_id ` set (all_listed s)"
  by (auto simp: in_any_list_def all_listed_def object_values_def)

lemma distinct_ids_set_list_append:
  assumes "distinct_ids s" and "get_prop (userBooks s) n = OwnList xs"
    and "\<not> in_any_list (book_id b) s"
  shows "distinct_ids (set_list n (xs @ [b]) s)"
  using assms
  by (auto simp: distinct_ids_def all_listed_def in_any_list_def object_values_def
      get_prop_def set_list_def split: if_splits)

lemma distinct_ids_set_list_filter:
  assumes "distinct_ids s" and "get_prop (userBooks s) n = OwnList xs"
  shows "distinct_ids (set_list n (filter P xs) s)"
  using assms
  by (auto simp: distinct_ids_def all_listed_def get_prop_def set_list_def distinct_map_filter
      split: if_splits)

lemma remove_first_filter:
  "distinct (map book_id xs) \<Longrightarrow>
     remove_first (has_id i) xs = filter (\<lambda>b. book_id b \<noteq> i) xs"
proof (induction xs)
  case Nil
  then show ?case by simp
next
  case (Cons a xs)
  show ?case
  proof (cases "book_id a = i")
    case True
    with Cons.prems have "i \<notin> book_id ` set xs" by simp
    then have "\<forall>x\<in>set xs. book_id x \<noteq> i" by blast
    then have "filter (\<lambda>b. book_id b \<noteq> i) xs = xs" by (simp add: filter_id_conv)
    with True show ?thesis by (simp add: has_id_def)
  next
    case False
    with Cons show ?thesis by (simp add: has_id_def)
  qed
qed

lemma addBookToList_distinct_ids:
  "distinct_ids s \<Longrightarrow> distinct_ids (snd (addBookToList b n s))"
  by (auto simp: addBookToList_def Let_def in_any_list_iff [symmetric]
      distinct_ids_set_list_append split: property_value.splits)

lemma removeBookFromList_distinct_ids:
  "distinct_ids s \<Longrightarrow> distinct_ids (snd (removeBookFromList i n s))"
  by (auto simp: removeBookFromList_def Let_def distinct_ids_set_list_filter
      split: property_value.splits)

lemma not_listed_after_filter:
  assumes "distinct_ids s" and "get_prop (userBooks s) n = OwnList xs"
    and "list_ex (has_id i) xs"
  shows "\<not> in_any_list i (set_list n (filter (\<lambda>b. book_id b \<noteq> i) xs) s)"
  using assms
  by (auto simp: distinct_ids_def all_listed_def in_any_list_def object_values_def
      get_prop_def set_list_def list_ex_iff has_id_def split: if_splits)

lemma distinct_ids_list:
  "distinct_ids s \<Longrightarrow> get_prop (userBooks s) n = OwnList xs \<Longrightarrow> distinct (map book_id xs)"
  by (auto simp: distinct_ids_def all_listed_def get_prop_def split: if_splits)

lemma find_in_caches_id: "find_in_caches i s = Some b \<Longrightarrow> book_id b = i"
  by (auto simp: find_in_caches_def has_id_def split: option.splits dest: find_Some_holds)

lemma move_into_target:
  assumes d: "distinct_ids s1" and n: "\<not> in_any_list i s1" and b: "book_id b = i"
  shows "distinct_ids
           (snd (case get_prop (userBooks s1) t of
                   OwnList ts \<Rightarrow>
                     if list_ex (has_id i) ts then (Returns True, s1)
                     else (Returns True, set_list t (ts @ [b]) s1)
                 | _ \<Rightarrow> (Throws, s1)))"
  using d n b by (auto simp: distinct_ids_set_list_append split: property_value.splits)

lemma moveBookToList_distinct_ids:
  assumes d: "distinct_ids s"
    and ok: "(\<exists>f. fromListName = Some f \<and> get_prop (userBooks s) f \<noteq> Undefined) \<or>
             \<not> in_any_list i s"
  shows "distinct_ids (snd (moveBookToList i fromListName t s))"
proof (cases "\<not> truthy i \<or> get_prop (userBooks s) t = Undefined")
  case True
  with d show ?thesis by (simp add: moveBookToList_def)
next
  case guard: False
  show ?thesis
  proof (cases "\<exists>f. fromListName = Some f \<and> get_prop (userBooks s) f \<noteq> Undefined")
    case True
    then obtain f where f: "fromListName = Some f" "get_prop (userBooks s) f \<noteq> Undefined"
      by blast
    then have fne: "f \<noteq> []" using get_prop_empty_name by auto
    show ?thesis
    proof (cases "get_prop (userBooks s) f")
      case (OwnList fs)
      show ?thesis
      proof (cases "find (has_id i) fs")
        case None
        with f fne OwnList guard d show ?thesis
          by (simp add: moveBookToList_def locate_book_def)
      next
        case (Some b)
        have ex: "list_ex (has_id i) fs"
          using Some find_None_list_ex [of "has_id i" fs] by auto
        have bi: "book_id b = i" using find_Some_holds [OF Some] by (simp add: has_id_def)
        let ?s1 = "set_list f (remove_first (has_id i) fs) s"
        have r: "remove_first (has_id i) fs = filter (\<lambda>b. book_id b \<noteq> i) fs"
          using distinct_ids_list [OF d OwnList] by (rule remove_first_filter)
        have d1: "distinct_ids ?s1"
          unfolding r using d OwnList by (rule distinct_ids_set_list_filter)
        have n1: "\<not> in_any_list i ?s1"
          unfolding r using d OwnList ex by (rule not_listed_after_filter)
        have L: "locate_book i fromListName s = Some (Some b, ?s1)"
          using f fne OwnList Some by (simp add: locate_book_def)
        from move_into_target [OF d1 n1 bi, of t] guard L show ?thesis
          by (simp add: moveBookToList_def)
      qed
    next
      case Inherited
      with f fne guard d show ?thesis
        by (simp add: moveBookToList_def locate_book_def)
    next
      case Undefined
      with f show ?thesis by simp
    qed
  next
    case False
    with ok have n: "\<not> in_any_list i s" by blast
    from False have L: "locate_book i fromListName s = Some (find_in_caches i s, s)"
      by (auto simp: locate_book_def split: option.splits)
    show ?thesis
    proof (cases "find_in_caches i s")
      case None
      with L guard d show ?thesis by (simp add: moveBookToList_def)
    next
      case (Some b)
      from move_into_target [OF d n find_in_caches_id [OF Some], of t] guard L Some
      show ?thesis by (simp add: moveBookToList_def)
    qed
  qed
qed

lemma distinct_ids_at_most_one_list:
  "distinct_ids s \<Longrightarrow> length (lists_holding i s) \<le> 1"
  by (auto simp: distinct_ids_def all_listed_def lists_holding_def get_prop_def list_ex_iff
      has_id_def)

lemma documented_run_distinct_ids: "documented_run s \<Longrightarrow> distinct_ids s"
proof (induction rule: documented_run.induct)
  case (start s)
  then show ?case by (simp add: distinct_ids_def all_listed_def)
next
  case (caches s xs ys)
  then show ?case by (simp add: distinct_ids_def all_listed_def)
next
  case (add s b listName)
  then show ?case by (simp add: addBookToList_distinct_ids)
next
  case (remove s bookId listName)
  then show ?case by (simp add: removeBookFromList_distinct_ids)
next
  case (move s fromListName bookId toListName)
  then show ?case by (simp add: moveBookToList_distinct_ids)
qed

lemma documented_run_single_membership:
  "documented_run s \<Longrightarrow> length (lists_holding bookId s) \<le> 1"
  by (rule distinct_ids_at_most_one_list) (rule documented_run_distinct_ids)

section \<open>Properties of the Recommendation Engine\<close>

subsection \<open>Signals and queries\<close>

lemma remdups_drop_repeated:
  "x \<in> set zs \<Longrightarrow> remdups (ys @ x # zs) = remdups (ys @ zs)"
  by (induction ys) auto

lemma set_add_distinct: "distinct acc \<Longrightarrow> distinct (set_add x acc)"
  by (simp add: set_add_def)

lemma fold_set_add:
  "distinct acc \<Longrightarrow> fold set_add xs acc = first_occurrences (acc @ xs)"
proof (induction xs arbitrary: acc)
  case Nil
  then have "distinct (rev acc)" by simp
  then have r: "remdups (rev acc) = rev acc" by (rule distinct_remdups_id)
  show ?case by (simp add: first_occurrences_def r)
next
  case (Cons x xs)
  show ?case
  proof (cases "x \<in> set acc")
    case True
    then have "first_occurrences (acc @ x # xs) = first_occurrences (acc @ xs)"
      by (simp add: first_occurrences_def remdups_drop_repeated)
    with Cons True show ?thesis by (simp add: set_add_def)
  next
    case False
    with Cons.prems have "distinct (acc @ [x])" by simp
    from Cons.IH [OF this] False show ?thesis by (simp add: set_add_def)
  qed
qed

lemma fold_set_add_empty: "fold set_add xs [] = first_occurrences xs"
  using fold_set_add [of "[]" xs] by simp

lemma first_occurrences_distinct: "distinct (first_occurrences xs)"
  by (simp add: first_occurrences_def)

lemma first_occurrences_set: "set (first_occurrences xs) = set xs"
  by (simp add: first_occurrences_def)

lemma extract_genres:
  "readGenres (fold extract_book books sig) = fold set_add (all_genres books) (readGenres sig)"
  by (induction books arbitrary: sig)
     (auto simp: all_genres_def extract_book_def Let_def split: option.splits)

lemma extract_authors:
  "readAuthors (fold extract_book books sig) = fold set_add (all_authors books) (readAuthors sig)"
  by (induction books arbitrary: sig)
     (auto simp: all_authors_def extract_book_def Let_def split: option.splits)

lemma extract_keywords:
  "readKeywords (fold extract_book books sig)
     = fold set_add (all_keywords books) (readKeywords sig)"
  by (induction books arbitrary: sig)
     (auto simp: all_keywords_def extract_book_def Let_def processText_def)

lemma extract_signals_eq:
  "extract_signals books =
     \<lparr>readGenres = first_occurrences (all_genres books),
      readAuthors = first_occurrences (all_authors books),
      readKeywords = first_occurrences (all_keywords books)\<rparr>"
  by (simp add: extract_signals_def extract_genres extract_authors extract_keywords
      fold_set_add_empty)

lemma text_words_long: "w \<in> set (text_words text) \<Longrightarrow> length w > 3"
  by (auto simp: text_words_def split: option.splits if_splits)

lemma all_keywords_long: "w \<in> set (all_keywords books) \<Longrightarrow> length w > 3"
  by (auto simp: all_keywords_def dest: text_words_long)

lemma join_nonempty: "ws \<noteq> [] \<Longrightarrow> hd ws \<noteq> [] \<Longrightarrow> join sep ws \<noteq> []"
  by (induction sep ws rule: join.induct) auto

lemma build_queries_nonempty: "[] \<notin> set (build_queries (extract_signals books))"
proof -
  let ?k = "take 3 (first_occurrences (all_keywords books))"
  have "join '' '' ?k \<noteq> []" if "?k \<noteq> []"
  proof -
    from that have "hd ?k \<in> set ?k" by (rule hd_in_set)
    then have "hd ?k \<in> set (all_keywords books)"
      by (auto dest!: in_set_takeD simp: first_occurrences_set)
    then have "hd ?k \<noteq> []" by (auto dest: all_keywords_long)
    with that show ?thesis by (rule join_nonempty)
  qed
  then show ?thesis
    by (auto simp: extract_signals_eq build_queries_def Let_def)
qed

text \<open>
  Claim C7. For every reading history the queries issued are, in this order: one
  \<open>subject:<genre>\<close> query for each of the first (at most) 3 distinct genres, one
  \<open>inauthor:<author>\<close> query for each of the first (at most) 2 distinct authors, and, when
  there is a keyword, one query made of the first (at most) 3 distinct keywords joined by
  spaces; distinct elements are taken in the order of discovery. When there are no genres,
  no authors and no keywords, as for an empty history, the one query \<open>bestsellers fiction\<close>
  is issued. No query is empty, so \<open>fetchBooks\<close> sends each of them.
\<close>

theorem build_queries_spec:
  "build_queries (extract_signals books) =
     (let genres = take 3 (first_occurrences (all_genres books));
          auths = take 2 (first_occurrences (all_authors books));
          keywords = take 3 (first_occurrences (all_keywords books))
      in if genres = [] \<and> auths = [] \<and> keywords = [] then [''bestsellers fiction'']
         else map (\<lambda>g. ''subject:'' @ g) genres @ map (\<lambda>a. ''inauthor:'' @ a) auths @
              (if keywords = [] then [] else [join '' '' keywords])) \<and>
   build_queries (extract_signals []) = [''bestsellers fiction''] \<and>
   [] \<notin> set (build_queries (extract_signals books))"
proof (intro conjI)
  show "[] \<notin> set (build_queries (extract_signals books))"
    by (rule build_queries_nonempty)
qed (auto simp: extract_signals_eq build_queries_def Let_def all_genres_def all_authors_def
      all_keywords_def first_occurrences_def)

text \<open>
  The queries for a history of one book: the repeated category is taken once, and the title
  gives the keywords (\<open>the\<close>, \<open>there\<close> and \<open>and\<close> are dropped).
\<close>

lemma hobbit_signals:
  "first_occurrences (all_genres [hobbit]) = [''Fantasy'', ''Fiction''] \<and>
   first_occurrences (all_authors [hobbit]) = [''J. R. R. Tolkien''] \<and>
   first_occurrences (all_keywords [hobbit]) = [''hobbit'', ''back'', ''again'']"
  by code_simp

theorem build_queries_spec_witness:
  "build_queries (extract_signals [hobbit]) =
     [''subject:Fantasy'', ''subject:Fiction'', ''inauthor:J. R. R. Tolkien'',
      ''hobbit back again'']"
  using build_queries_spec [of "[hobbit]"] by (simp add: hobbit_signals)

subsection \<open>The filter pass\<close>

lemma set_set_add: "set (set_add x xs) = insert x (set xs)"
  by (auto simp: set_add_def)

lemma filter_step_eligible:
  "filter_step owned b (U, S) =
     (if eligible owned b \<and> book_id b \<notin> set S then (U @ [b], set_add (book_id b) S)
      else (U, S))"
  by (auto simp: filter_step_def eligible_def split: option.splits)

lemma fold_filter_step_seen:
  "set S = book_id ` set U \<Longrightarrow> fold (filter_step owned) cands (U, S) = (U', S') \<Longrightarrow>
     set S' = book_id ` set U'"
proof (induction cands arbitrary: U S)
  case Nil
  then show ?case by simp
next
  case (Cons b cands)
  show ?case
  proof (cases "eligible owned b \<and> book_id b \<notin> set S")
    case True
    with Cons.prems(2)
    have f: "fold (filter_step owned) cands (U @ [b], set_add (book_id b) S) = (U', S')"
      by (simp add: filter_step_eligible)
    have "set (set_add (book_id b) S) = book_id ` set (U @ [b])"
      using Cons.prems(1) by (simp add: set_set_add)
    from Cons.IH [OF this f] show ?thesis .
  next
    case False
    with Cons.prems(2) have f: "fold (filter_step owned) cands (U, S) = (U', S')"
      by (auto simp: filter_step_eligible)
    from Cons.IH [OF Cons.prems(1) f] show ?thesis .
  qed
qed

lemma filter_books_seen:
  "fold (filter_step owned) cands ([], []) = (U, S) \<Longrightarrow> set S = book_id ` set U"
  using fold_filter_step_seen [of "[]" "[]" owned cands U S] by simp

lemma filter_books_snoc:
  "filter_books owned (pre @ [b]) =
     filter_books owned pre @
       (if eligible owned b \<and> book_id b \<notin> book_id ` set (filter_books owned pre) then [b]
        else [])"
proof -
  obtain U S where f: "fold (filter_step owned) pre ([], []) = (U, S)"
    by (cases "fold (filter_step owned) pre ([], [])") auto
  from filter_books_seen [OF f] have "set S = book_id ` set U" .
  with f show ?thesis
    by (simp add: filter_books_def filter_step_eligible)
qed

lemma filter_books_Nil: "filter_books owned [] = []"
  by (simp add: filter_books_def)

lemma filter_books_ids:
  "book_id ` set (filter_books owned cands) = book_id ` set (filter (eligible owned) cands)"
  by (induction cands rule: rev_induct) (auto simp: filter_books_Nil filter_books_snoc)

lemma filter_books_distinct: "distinct (map book_id (filter_books owned cands))"
  by (induction cands rule: rev_induct) (auto simp: filter_books_Nil filter_books_snoc)

lemma filter_books_eligible:
  "b \<in> set (filter_books owned cands) \<Longrightarrow> eligible owned b \<and> b \<in> set cands"
  by (induction cands rule: rev_induct)
     (auto simp: filter_books_Nil filter_books_snoc split: if_splits)

lemma filter_books_has_info:
  "b \<in> set (filter_books owned cands) \<Longrightarrow> volumeInfo b \<noteq> None"
  by (drule filter_books_eligible) (auto simp: eligible_def split: option.splits)

lemma fold_set_add_set: "set (fold (\<lambda>b ids. set_add (f b) ids) l acc) = set acc \<union> f ` set l"
  by (induction l arbitrary: acc) (auto simp: set_set_add)

lemma getAllUserBookIds_set: "set (getAllUserBookIds s) = {i. in_any_list i s}"
  by (auto simp: getAllUserBookIds_def in_any_list_def object_values_def fold_set_add_set)

lemma owned_read_B1: "getAllUserBookIds read_B1_state = [Some ''B1'']"
  by (simp add: getAllUserBookIds_def object_values_def read_B1_state_def B1_def set_add_def)

lemma filter_example:
  "filter_books [Some ''B1''] [cover_B1, cover_X, no_cover_X, cover_X] = [cover_X]"
  by (simp add: filter_books_def filter_step_def no_cover_X_def cover_X_def cover_B1_def
      truthy_def has_cover_def no_info_def set_add_def)

text \<open>
  Claim C5 as stated fails: of two entries with the same id, the first without a cover URL,
  the first is dropped and the second survives, although its id occurred earlier in the pass.
\<close>

theorem filter_books_later_duplicate_counterexample:
  "book_id no_cover_X = book_id cover_X \<and>
   filter_books [] [no_cover_X, cover_X] = [cover_X]"
  by (simp add: filter_books_def filter_step_def no_cover_X_def cover_X_def truthy_def
      has_cover_def no_info_def set_add_def)

text \<open>
  Claim C5, amended. An id counts as seen only once a book with it has been kept. For every
  candidate sequence and owned-id list, the entry \<open>b\<close> that follows the entries \<open>pre\<close> is kept
  iff it has a non-empty id, a descriptive block with at least one cover URL (full-size or
  small thumbnail), an id that is not owned, and an id different from that of every entry
  kept before it. The ids kept from \<open>pre\<close> are the ids of its entries that meet the first
  three conditions, so of several entries with one id exactly the first that meets them
  survives; the ids of the result are pairwise distinct; and with the owned ids taken from
  \<open>getAllUserBookIds\<close>, no book of the result has an id held by one of the three lists.
\<close>

theorem filter_books_spec:
  "filter_books owned [] = [] \<and>
   filter_books owned (pre @ [b]) =
     filter_books owned pre @
       (if truthy (book_id b) \<and>
           (case volumeInfo b of None \<Rightarrow> False | Some info \<Rightarrow> has_cover info) \<and>
           book_id b \<notin> set owned \<and>
           book_id b \<notin> book_id ` set (filter_books owned pre)
        then [b] else []) \<and>
   book_id ` set (filter_books owned pre) = book_id ` set (filter (eligible owned) pre) \<and>
   distinct (map book_id (filter_books owned cands)) \<and>
   (\<forall>x\<in>set (filter_books (getAllUserBookIds s) cands). \<not> in_any_list (book_id x) s)"
proof (intro conjI)
  show "filter_books owned (pre @ [b]) =
     filter_books owned pre @
       (if truthy (book_id b) \<and>
           (case volumeInfo b of None \<Rightarrow> False | Some info \<Rightarrow> has_cover info) \<and>
           book_id b \<notin> set owned \<and>
           book_id b \<notin> book_id ` set (filter_books owned pre)
        then [b] else [])"
    by (simp add: filter_books_snoc eligible_def)
  show "\<forall>x\<in>set (filter_books (getAllUserBookIds s) cands). \<not> in_any_list (book_id x) s"
    using filter_books_eligible [of _ "getAllUserBookIds s" cands]
    by (auto simp: eligible_def getAllUserBookIds_set)
qed (simp_all add: filter_books_Nil filter_books_ids filter_books_distinct)

text \<open>
  A pass over an owned entry, an entry with a cover, a duplicate without a cover and a
  duplicate with a cover, while \<open>B1\<close> is in \<open>readBooks\<close>: one entry survives, and it is not
  owned.
\<close>

theorem filter_books_spec_witness:
  "in_any_list (book_id cover_B1) read_B1_state \<and>
   filter_books (getAllUserBookIds read_B1_state) [cover_B1, cover_X, no_cover_X, cover_X]
     = [cover_X] \<and>
   \<not> in_any_list (book_id cover_X) read_B1_state"
proof -
  have o: "in_any_list (book_id cover_B1) read_B1_state"
    by (simp add: in_any_list_def object_values_def read_B1_state_def B1_def cover_B1_def)
  have f: "filter_books (getAllUserBookIds read_B1_state)
             [cover_B1, cover_X, no_cover_X, cover_X] = [cover_X]"
    by (simp add: owned_read_B1 filter_example)
  from filter_books_spec [of "[]" "[]" cover_X "[cover_B1, cover_X, no_cover_X, cover_X]"
      read_B1_state]
  have "\<forall>x\<in>set (filter_books (getAllUserBookIds read_B1_state)
               [cover_B1, cover_X, no_cover_X, cover_X]). \<not> in_any_list (book_id x) read_B1_state"
    by blast
  with f have "\<not> in_any_list (book_id cover_X) read_B1_state" by simp
  with o f show ?thesis by simp
qed

subsection \<open>The ranking\<close>

lemma compareFn_le_iff: "compareFn a b \<le> 0 \<longleftrightarrow> rank_key a \<le> rank_key b"
  by (auto simp: compareFn_def rank_key_def Let_def)

lemma rank_key_le_iff: "rank_key a \<le> rank_key b \<longleftrightarrow> ranked_before a b"
  by (auto simp: rank_key_def ranked_before_def)

lemma insert_sorted_insort:
  "insert_sorted compareFn x ys = insort_key rank_key x ys"
  by (induction ys) (simp_all add: compareFn_le_iff)

lemma js_sort_sort_key: "js_sort compareFn xs = sort_key rank_key xs"
  by (induction xs) (simp_all add: js_sort_def insert_sorted_insort)

lemma js_sort_sorted: "sorted_wrt ranked_before (js_sort compareFn xs)"
proof -
  have "sorted (map rank_key (sort_key rank_key xs))" by simp
  then have "sorted_wrt (\<lambda>a b. rank_key a \<le> rank_key b) (sort_key rank_key xs)"
    by (simp add: sorted_map)
  then show ?thesis
    by (simp add: js_sort_sort_key rank_key_le_iff)
qed

lemma js_sort_stable:
  "filter (\<lambda>b. rating b = r \<and> rcount b = c) (js_sort compareFn xs)
     = filter (\<lambda>b. rating b = r \<and> rcount b = c) xs"
proof -
  have "(\<lambda>b. rating b = r \<and> rcount b = c) = (\<lambda>b. rank_key b = (- r, - c))"
    by (auto simp: rank_key_def)
  then show ?thesis
    by (simp add: js_sort_sort_key sort_key_stable)
qed

lemma finalRecommendations_Nil: "finalRecommendations [] = []"
  by (simp add: finalRecommendations_def js_sort_def)

lemma rating_eq: "rating b = rating_or_zero b"
  by (simp add: rating_def rating_or_zero_def info_or_empty_def no_info_def
      split: option.splits)

lemma rcount_eq: "rcount b = count_or_zero b"
  by (simp add: rcount_def count_or_zero_def info_or_empty_def no_info_def
      split: option.splits)

text \<open>
  Claim C6. With a missing \<open>averageRating\<close> and a missing \<open>ratingsCount\<close> read as 0, the list
  sorted by the comparator is a permutation of the filtered one in which each book is
  followed only by books of a lower rating, or of the same rating and at most its count, and
  in which the books that tie on both numbers keep their original order; these three
  properties fix the sorted list. The result is the first 10 of it. Books rated (4.5,100),
  (4.5,50), (5.0,10) come out as 5.0/10, 4.5/100, 4.5/50; and from the order (4.5,50), no
  numbers, (4.5,100), (5.0,10), (4.5,50), (4.5, no count) the result is 5.0/10, 4.5/100, the
  two 4.5/50 in their original order, 4.5 without a count, and last the book without
  numbers.
\<close>

theorem finalRecommendations_spec:
  "finalRecommendations xs = take 10 (js_sort compareFn xs) \<and>
   length (finalRecommendations xs) = min 10 (length xs) \<and>
   mset (js_sort compareFn xs) = mset xs \<and>
   sorted_wrt
     (\<lambda>a b. rating_or_zero a > rating_or_zero b \<or>
            (rating_or_zero a = rating_or_zero b \<and> count_or_zero a \<ge> count_or_zero b))
     (js_sort compareFn xs) \<and>
   (\<forall>r c. filter (\<lambda>b. rating_or_zero b = r \<and> count_or_zero b = c) (js_sort compareFn xs)
            = filter (\<lambda>b. rating_or_zero b = r \<and> count_or_zero b = c) xs) \<and>
   finalRecommendations [rated ''a'' (9/2) 100, rated ''b'' (9/2) 50, rated ''c'' 5 10]
     = [rated ''c'' 5 10, rated ''a'' (9/2) 100, rated ''b'' (9/2) 50] \<and>
   finalRecommendations
     [rated ''a'' (9/2) 50, unrated ''u'', rated ''b'' (9/2) 100, rated ''c'' 5 10,
      rated ''d'' (9/2) 50, half_rated ''h'' (9/2)]
     = [rated ''c'' 5 10, rated ''b'' (9/2) 100, rated ''a'' (9/2) 50, rated ''d'' (9/2) 50,
        half_rated ''h'' (9/2), unrated ''u'']"
proof (intro conjI)
  show "finalRecommendations xs = take 10 (js_sort compareFn xs)"
    by (simp add: finalRecommendations_def)
  show "mset (js_sort compareFn xs) = mset xs"
    by (simp add: js_sort_sort_key)
  then have "length (js_sort compareFn xs) = length xs"
    by (rule mset_eq_length)
  then show "length (finalRecommendations xs) = min 10 (length xs)"
    by (simp add: finalRecommendations_def min.commute)
  show "sorted_wrt
     (\<lambda>a b. rating_or_zero a > rating_or_zero b \<or>
            (rating_or_zero a = rating_or_zero b \<and> count_or_zero a \<ge> count_or_zero b))
     (js_sort compareFn xs)"
    using js_sort_sorted [of xs] by (simp add: ranked_before_def [abs_def] rating_eq rcount_eq)
  show "\<forall>r c. filter (\<lambda>b. rating_or_zero b = r \<and> count_or_zero b = c) (js_sort compareFn xs)
            = filter (\<lambda>b. rating_or_zero b = r \<and> count_or_zero b = c) xs"
    using js_sort_stable [of _ _ xs] by (simp add: rating_eq rcount_eq)
  show "finalRecommendations [rated ''a'' (9/2) 100, rated ''b'' (9/2) 50, rated ''c'' 5 10]
     = [rated ''c'' 5 10, rated ''a'' (9/2) 100, rated ''b'' (9/2) 50]"
    by (simp add: finalRecommendations_def js_sort_def compareFn_def rating_def rcount_def
        rated_def info_or_empty_def no_info_def Let_def)
  show "finalRecommendations
     [rated ''a'' (9/2) 50, unrated ''u'', rated ''b'' (9/2) 100, rated ''c'' 5 10,
      rated ''d'' (9/2) 50, half_rated ''h'' (9/2)]
     = [rated ''c'' 5 10, rated ''b'' (9/2) 100, rated ''a'' (9/2) 50, rated ''d'' (9/2) 50,
        half_rated ''h'' (9/2), unrated ''u'']"
    by (simp add: finalRecommendations_def js_sort_def compareFn_def rating_def rcount_def
        rated_def unrated_def half_rated_def info_or_empty_def no_info_def Let_def)
qed

text \<open>
  The general statement on the second list of the claim's text: the ids of the result, its
  length, and the numbers the ranking read from each book.
\<close>

theorem finalRecommendations_spec_witness:
  "map book_id (finalRecommendations ranking_input)
     = [Some ''c'', Some ''b'', Some ''a'', Some ''d'', Some ''h'', Some ''u''] \<and>
   length (finalRecommendations ranking_input) = min 10 (length ranking_input) \<and>
   map (\<lambda>b. (rating_or_zero b, count_or_zero b)) (finalRecommendations ranking_input)
     = [(5, 10), (9/2, 100), (9/2, 50), (9/2, 50), (9/2, 0), (0, 0)]"
proof -
  have e: "finalRecommendations ranking_input
      = [rated ''c'' 5 10, rated ''b'' (9/2) 100, rated ''a'' (9/2) 50, rated ''d'' (9/2) 50,
         half_rated ''h'' (9/2), unrated ''u'']"
    using finalRecommendations_spec [of ranking_input] unfolding ranking_input_def by blast
  have l: "length (finalRecommendations ranking_input) = min 10 (length ranking_input)"
    using finalRecommendations_spec [of ranking_input] by blast
  have i: "map book_id (finalRecommendations ranking_input)
     = [Some ''c'', Some ''b'', Some ''a'', Some ''d'', Some ''h'', Some ''u'']"
    unfolding e by (simp add: rated_def unrated_def half_rated_def)
  have k: "map (\<lambda>b. (rating_or_zero b, count_or_zero b)) (finalRecommendations ranking_input)
     = [(5, 10), (9/2, 100), (9/2, 50), (9/2, 50), (9/2, 0), (0, 0)]"
    unfolding e
    by (simp add: rated_def unrated_def half_rated_def rating_or_zero_def count_or_zero_def
        no_info_def)
  from i l k show ?thesis by blast
qed

subsection \<open>Failing queries, commit and display\<close>

lemma catch_empty_absorbs:
  "catch_empty (fetchBooks (\<lambda>q. Inr (catch_empty (cat q))) query)
     = catch_empty (fetchBooks cat query)"
  by (simp add: fetchBooks_def catch_empty_def)

lemma fan_out_absorbs:
  "fan_out (\<lambda>q. Inr (catch_empty (cat q))) queries = fan_out cat queries"
  by (simp add: fan_out_def catch_empty_absorbs)

lemma fan_out_all_fail:
  "\<forall>q\<in>set queries. \<exists>e. cat q = Inl e \<Longrightarrow> fan_out cat queries = []"
  by (auto simp: fan_out_def fetchBooks_def catch_empty_def)

text \<open>
  Every book that is kept has an id, so the display step throws on every result that is not
  empty: the list itself is never shown, while the cache has been written before.
\<close>

lemma final_ids_truthy:
  "b \<in> set (finalRecommendations (filter_books owned cands)) \<Longrightarrow> truthy (book_id b)"
proof -
  assume "b \<in> set (finalRecommendations (filter_books owned cands))"
  then have "b \<in> set (js_sort compareFn (filter_books owned cands))"
    by (auto simp: finalRecommendations_def dest: in_set_takeD)
  then have "b \<in># mset (js_sort compareFn (filter_books owned cands))" by simp
  then have "b \<in> set (filter_books owned cands)" by (simp add: js_sort_sort_key)
  then show ?thesis by (auto dest: filter_books_eligible simp: eligible_def)
qed

lemma generateRecommendations_never_shows_list:
  "fst (generateRecommendations dom_ready cat s) \<noteq> ShowsList"
proof -
  have "displayRecommendations_throws (finalRecommendations (filter_books owned cands))"
    if "finalRecommendations (filter_books owned cands) \<noteq> []" for owned cands
  proof -
    from that obtain b where "b \<in> set (finalRecommendations (filter_books owned cands))"
      by (cases "finalRecommendations (filter_books owned cands)") auto
    then show ?thesis
      unfolding displayRecommendations_throws_def list_ex_iff
      using final_ids_truthy by blast
  qed
  then show ?thesis
    by (auto simp: generateRecommendations_def Let_def)
qed

text \<open>
  Claim C8. A failing query counts as an empty result set and the batch goes on: the run is
  the same as with a catalog that answers that query with no items, and in the merge every
  query contributes its items, or nothing when it failed, between the contributions of the
  others. If every query fails, the merge is empty, the empty list is written to the
  recommendation cache, and the user sees the message for an empty result, not an error.
\<close>

theorem generateRecommendations_failures:
  "generateRecommendations dom_ready cat s
     = generateRecommendations dom_ready (\<lambda>q. Inr (catch_empty (cat q))) s \<and>
   fan_out cat (qs1 @ q # qs2) =
     fan_out cat qs1 @ (case fetchBooks cat q of Inl e \<Rightarrow> [] | Inr items \<Rightarrow> items) @
     fan_out cat qs2 \<and>
   ((\<forall>q. \<exists>e. cat q = Inl e) \<longrightarrow>
      fan_out cat queries = [] \<and>
      generateRecommendations True cat s
        = (ShowsEmptyMessage, s\<lparr>recommendationsCache := []\<rparr>))"
proof (intro conjI impI)
  show "generateRecommendations dom_ready cat s
     = generateRecommendations dom_ready (\<lambda>q. Inr (catch_empty (cat q))) s"
    by (simp add: generateRecommendations_def fan_out_absorbs)
  show "fan_out cat (qs1 @ q # qs2) =
     fan_out cat qs1 @ (case fetchBooks cat q of Inl e \<Rightarrow> [] | Inr items \<Rightarrow> items) @
     fan_out cat qs2"
    by (simp add: fan_out_def catch_empty_def)
next
  assume a: "\<forall>q. \<exists>e. cat q = Inl e"
  then have f: "\<And>qs. fan_out cat qs = []" by (simp add: fan_out_all_fail)
  then show "fan_out cat queries = []" .
  show "generateRecommendations True cat s
          = (ShowsEmptyMessage, s\<lparr>recommendationsCache := []\<rparr>)"
    by (simp add: generateRecommendations_def f filter_books_Nil finalRecommendations_Nil
        displayRecommendations_throws_def Let_def)
qed

text \<open>A run on a catalog where every request fails.\<close>

theorem generateRecommendations_failures_witness:
  "(\<forall>q. \<exists>e. all_fail q = Inl e) \<and>
   generateRecommendations True all_fail read_B1_state
     = (ShowsEmptyMessage, read_B1_state\<lparr>recommendationsCache := []\<rparr>)"
proof -
  have h: "\<forall>q. \<exists>e. all_fail q = Inl e" by (simp add: all_fail_def)
  from generateRecommendations_failures [of True all_fail read_B1_state "[]" "[]" "[]" "[]"] h
  show ?thesis by blast
qed

subsection \<open>Cover URL\<close>

lemma pick_Cons:
  "pick t a (x # xs) = pick t (if ident_type x = t then ident_value x else a) xs"
  by (cases "rev (filter (\<lambda>i. ident_type i = t) xs)") (auto simp: pick_def)

lemma pick_oclc_Cons:
  "pick_oclc a (x # xs) =
     pick_oclc (if is_oclc x then map_option (replace_first ''OCLC:'' []) (ident_value x) else a)
       xs"
  by (cases "rev (filter is_oclc xs)") (auto simp: pick_oclc_def)

lemma cover_step_triple:
  "cover_step x (a, b, c) =
     (if ident_type x = ''ISBN_13'' then ident_value x else a,
      if ident_type x = ''ISBN_10'' then ident_value x else b,
      if is_oclc x then map_option (replace_first ''OCLC:'' []) (ident_value x) else c)"
  by (auto simp: cover_step_def is_oclc_def)

lemma fold_cover_step:
  "fold cover_step ids (a, b, c)
     = (pick ''ISBN_13'' a ids, pick ''ISBN_10'' b ids, pick_oclc c ids)"
proof (induction ids arbitrary: a b c)
  case Nil
  then show ?case by (simp add: pick_def pick_oclc_def)
next
  case (Cons x xs)
  have "fold cover_step (x # xs) (a, b, c) = fold cover_step xs (cover_step x (a, b, c))"
    by simp
  also have "\<dots> = (pick ''ISBN_13'' a (x # xs), pick ''ISBN_10'' b (x # xs),
                     pick_oclc c (x # xs))"
    unfolding cover_step_triple Cons.IH pick_Cons pick_oclc_Cons ..
  finally show ?case .
qed

lemma fold_cover_step_init:
  "fold cover_step ids (None, None, None)
     = (last_value ''ISBN_13'' ids, last_value ''ISBN_10'' ids, last_oclc ids)"
  by (simp add: fold_cover_step pick_def pick_oclc_def last_value_def last_oclc_def)

lemma replace_first_prefix: "replace_first pat rep (pat @ rest) = rep @ rest"
proof (cases "pat @ rest")
  case Nil
  then show ?thesis by simp
next
  case (Cons c cs)
  have s: "startsWith (c # cs) pat" by (simp add: startsWith_def Cons [symmetric])
  have "replace_first pat rep (c # cs) = rep @ drop (length pat) (c # cs)"
    using s by simp
  also have "\<dots> = rep @ rest" by (simp add: Cons [symmetric])
  finally show ?thesis by (simp add: Cons)
qed

lemma cover_by_slots:
  "industryIdentifiers info = Some ids \<Longrightarrow>
     getOpenLibraryCover (Some info) size_arg =
       (if truthy (last_value ''ISBN_13'' ids)
          then map_option (\<lambda>k. cover_url ''isbn'' k (size_or_default size_arg))
                 (last_value ''ISBN_13'' ids)
        else if truthy (last_value ''ISBN_10'' ids)
          then map_option (\<lambda>k. cover_url ''isbn'' k (size_or_default size_arg))
                 (last_value ''ISBN_10'' ids)
        else if truthy (last_oclc ids)
          then map_option (\<lambda>k. cover_url ''oclc'' k (size_or_default size_arg)) (last_oclc ids)
        else None)"
  by (simp add: getOpenLibraryCover_def fold_cover_step_init Let_def)

lemma last_value_unusable:
  "\<forall>i\<in>set ids. \<not> usable i \<Longrightarrow> t = ''ISBN_13'' \<or> t = ''ISBN_10'' \<Longrightarrow>
     \<not> truthy (last_value t ids)"
proof (cases "rev (filter (\<lambda>i. ident_type i = t) ids)")
  case Nil
  then show ?thesis by (simp add: last_value_def truthy_def)
next
  case (Cons i rest)
  assume a: "\<forall>i\<in>set ids. \<not> usable i" and t: "t = ''ISBN_13'' \<or> t = ''ISBN_10''"
  have "i \<in> set (rev (filter (\<lambda>i. ident_type i = t) ids))" by (simp add: Cons)
  then have "i \<in> set ids" "ident_type i = t" by auto
  with a t have "\<not> truthy (ident_value i)" by (auto simp: usable_def)
  with Cons show ?thesis by (simp add: last_value_def)
qed

lemma last_oclc_unusable:
  "\<forall>i\<in>set ids. \<not> usable i \<Longrightarrow> last_oclc ids = None"
proof -
  assume a: "\<forall>i\<in>set ids. \<not> usable i"
  then have "filter is_oclc ids = []" by (auto simp: usable_def filter_empty_conv)
  then show ?thesis by (simp add: last_oclc_def)
qed

text \<open>
  What the loop computes: nothing when the block or its identifier array is missing.
  Otherwise, the identifier of each kind being that of the last entry of the kind: a
  non-empty ISBN-13 gives the \<open>isbn\<close> URL of it; failing that, a non-empty ISBN-10 gives the
  \<open>isbn\<close> URL of it; failing that, an \<open>OTHER\<close> identifier starting with \<open>OCLC\<close> gives the \<open>oclc\<close>
  URL of what is left after \<open>OCLC:\<close> is removed, if that is non-empty; failing all three, and
  in particular when no entry is usable, the result is nothing. The size is \<open>M\<close> when not
  given; removing \<open>OCLC:\<close> from an identifier that starts with it strips that prefix.
\<close>

lemma getOpenLibraryCover_last_entries:
  "getOpenLibraryCover None size_arg = None \<and>
   (industryIdentifiers info = None \<longrightarrow> getOpenLibraryCover (Some info) size_arg = None) \<and>
   (industryIdentifiers info = Some ids \<longrightarrow>
      (\<forall>k. last_value ''ISBN_13'' ids = Some k \<and> k \<noteq> [] \<longrightarrow>
         getOpenLibraryCover (Some info) size_arg
           = Some (cover_url ''isbn'' k (size_or_default size_arg))) \<and>
      (\<forall>k. \<not> truthy (last_value ''ISBN_13'' ids) \<and>
           last_value ''ISBN_10'' ids = Some k \<and> k \<noteq> [] \<longrightarrow>
         getOpenLibraryCover (Some info) size_arg
           = Some (cover_url ''isbn'' k (size_or_default size_arg))) \<and>
      (\<forall>k. \<not> truthy (last_value ''ISBN_13'' ids) \<and> \<not> truthy (last_value ''ISBN_10'' ids) \<and>
           last_oclc ids = Some k \<and> k \<noteq> [] \<longrightarrow>
         getOpenLibraryCover (Some info) size_arg
           = Some (cover_url ''oclc'' k (size_or_default size_arg))) \<and>
      (\<not> truthy (last_value ''ISBN_13'' ids) \<and> \<not> truthy (last_value ''ISBN_10'' ids) \<and>
       \<not> truthy (last_oclc ids) \<longrightarrow>
         getOpenLibraryCover (Some info) size_arg = None) \<and>
      ((\<forall>i\<in>set ids. \<not> usable i) \<longrightarrow> getOpenLibraryCover (Some info) size_arg = None)) \<and>
   size_or_default None = ''M'' \<and> size_or_default (Some z) = z \<and>
   replace_first ''OCLC:'' [] (''OCLC:'' @ rest) = rest"
proof (intro conjI impI allI)
  show "getOpenLibraryCover None size_arg = None"
    by (simp add: getOpenLibraryCover_def)
  show "getOpenLibraryCover (Some info) size_arg = None" if "industryIdentifiers info = None"
    using that by (simp add: getOpenLibraryCover_def)
  show "replace_first ''OCLC:'' [] (''OCLC:'' @ rest) = rest"
    using replace_first_prefix [of "''OCLC:''" "[]" rest] by simp
  show "getOpenLibraryCover (Some info) size_arg = None"
    if "industryIdentifiers info = Some ids" and "\<forall>i\<in>set ids. \<not> usable i"
    using that last_value_unusable [of ids] last_oclc_unusable [of ids]
    by (simp add: cover_by_slots truthy_def)
qed (auto simp: cover_by_slots truthy_def size_or_default_def)

text \<open>
  Claim C9 fails on the code. A block holds a usable ISBN-13, but a later \<open>ISBN_13\<close> entry
  without an identifier overwrites the slot: with an ISBN-10 in the block the result is the
  ISBN-10 URL, not the ISBN-13 one, and with no other entry (the later identifier being the
  empty string) the result is nothing, although an identifier was found.
\<close>

theorem getOpenLibraryCover_masked_isbn13:
  "usable \<lparr>ident_type = ''ISBN_13'', ident_value = Some ''9780261103344''\<rparr> \<and>
   industryIdentifiers masked_info = Some
     [\<lparr>ident_type = ''ISBN_10'', ident_value = Some ''0261103342''\<rparr>,
      \<lparr>ident_type = ''ISBN_13'', ident_value = Some ''9780261103344''\<rparr>,
      \<lparr>ident_type = ''ISBN_13'', ident_value = None\<rparr>] \<and>
   getOpenLibraryCover (Some masked_info) None
     = Some ''https://covers.openlibrary.org/b/isbn/0261103342-M.jpg'' \<and>
   industryIdentifiers masked_only_info = Some
     [\<lparr>ident_type = ''ISBN_13'', ident_value = Some ''9780261103344''\<rparr>,
      \<lparr>ident_type = ''ISBN_13'', ident_value = Some []\<rparr>] \<and>
   getOpenLibraryCover (Some masked_only_info) None = None"
  by (simp add: usable_def truthy_def masked_info_def masked_only_info_def no_info_def
      getOpenLibraryCover_def cover_step_def cover_url_def size_or_default_def)

text \<open>The result for the first block is not the ISBN-13 URL.\<close>

theorem getOpenLibraryCover_masked_isbn13_witness:
  "getOpenLibraryCover (Some masked_info) None
     \<noteq> Some (cover_url ''isbn'' ''9780261103344'' ''M'') \<and>
   getOpenLibraryCover (Some masked_only_info) None
     \<noteq> Some (cover_url ''isbn'' ''9780261103344'' ''M'')"
  using getOpenLibraryCover_masked_isbn13 by (simp add: cover_url_def)

text \<open>
  Without the masking entry, a block with all three kinds of identifier gives the ISBN-13
  URL at the default size.
\<close>

lemma getOpenLibraryCover_hobbit:
  "getOpenLibraryCover (Some hobbit_info) None
     = Some ''https://covers.openlibrary.org/b/isbn/9780261103344-M.jpg''"
  by (simp add: hobbit_info_def no_info_def getOpenLibraryCover_def cover_step_def
      cover_url_def size_or_default_def truthy_def)

end
